theory Spec2Isabelle
  imports Main "HOL-Library.AList"
begin

section \<open>The file-system inventory plugin (\<^verbatim>\<open>plugins/inventory/file_system.py\<close>)\<close>

text \<open>
  A shallow embedding of \<^verbatim>\<open>InventoryGenerator\<close>: the classification maps loaded by
  \<^verbatim>\<open>__init__\<close>, \<^verbatim>\<open>merge\<close>, \<^verbatim>\<open>expand_host\<close>, \<^verbatim>\<open>traverse_site\<close>,
  \<^verbatim>\<open>generate_host_data\<close> and \<^verbatim>\<open>generate_inventory\<close>.

  Modelling decisions, each visible in the definitions below.
  \<^item> A Python value is a \<open>pyval\<close>: \<^verbatim>\<open>None\<close>, a Boolean, an unbounded integer, a string,
    a list or a dictionary. Floats, dates and the other objects a YAML loader can build are
    not represented. A string is a list of 8-bit characters, read as the code points below
    256; among them the regular expression class \<^verbatim>\<open>\d\<close> is the ten ASCII digits.
  \<^item> A dictionary is an association list in insertion order. A key is \<^verbatim>\<open>None\<close>, an integer
    or a string; a Boolean key is the integer it is equal to as a key (\<^verbatim>\<open>True\<close> is 1).
    Assignment \<^verbatim>\<open>d[k] = v\<close> is \<open>AList.update\<close>: it replaces the value of a key that is
    present and appends a new key at the end, as Python does.
  \<^item> Values are trees: the model has no object identity. The only object
    \<^verbatim>\<open>merge(a, b)\<close> writes to is \<^verbatim>\<open>a\<close> (and the dictionaries nested in it), so
    \<open>merge\<close> returns a pair: the contents of \<^verbatim>\<open>a\<close> when the call returns, and the
    returned \<^verbatim>\<open>dict(a)\<close>. An object that is reached twice (a YAML anchor with an alias)
    reads as two equal values, and a write through one of them does not show in the other.
    The statements on what \<^verbatim>\<open>merge\<close> returns therefore carry a hypothesis, stated on
    values, under which no object that is written to is shared (\<open>dicts_in\<close>,
    \<open>nested_dicts\<close>). The limit on the depth of recursion is not modelled.
  \<^item> Every exception is a value of \<open>py_error\<close>; a function that can raise returns
    \<open>py_error + 'a\<close>. A generator is the list of what it yields before it stops, with the
    exception that stopped it, if any.
  \<^item> The operating system and the libraries are parameters (\<open>os_env\<close>): which paths are
    files, what \<^verbatim>\<open>open(p).read()\<close> returns, what \<^verbatim>\<open>yaml.load\<close> returns, what
    \<^verbatim>\<open>Path.glob\<close> lists, and how an f-string prints a value that is not a string. Paths
    are in the normal form that \<^verbatim>\<open>Path.as_posix()\<close> prints. Logging is left out.
\<close>

subsection \<open>Python values\<close>

datatype py_error =
  TypeError | KeyError | AttributeError | ValueError | IndexError | OSError | YAMLError

datatype pykey = KNone | KInt int | KStr string

datatype pyval =
  PNone | PBool bool | PInt int | PStr string
  | PList "pyval list" | PDict "(pykey \<times> pyval) list"

type_synonym pydict = "(pykey \<times> pyval) list"

text \<open>Truth value of an object, as \<^verbatim>\<open>if x:\<close> and \<^verbatim>\<open>all([...])\<close> test it.\<close>

fun truthy :: "pyval \<Rightarrow> bool" where
  "truthy PNone = False"
| "truthy (PBool b) = b"
| "truthy (PInt i) = (i \<noteq> 0)"
| "truthy (PStr s) = (s \<noteq> [])"
| "truthy (PList xs) = (xs \<noteq> [])"
| "truthy (PDict d) = (d \<noteq> [])"

text \<open>
  A key read back as a value (iterating a dictionary, \<^verbatim>\<open>list(c.keys())\<close>). A Boolean
  key is kept as the integer it is equal to, and reads back as that integer.
\<close>

fun key_val :: "pykey \<Rightarrow> pyval" where
  "key_val KNone = PNone"
| "key_val (KInt i) = PInt i"
| "key_val (KStr s) = PStr s"

text \<open>A value used as a key: lists and dictionaries are unhashable.\<close>

fun hash_key :: "pyval \<Rightarrow> py_error + pykey" where
  "hash_key PNone = Inr KNone"
| "hash_key (PBool b) = Inr (KInt (if b then 1 else 0))"
| "hash_key (PInt i) = Inr (KInt i)"
| "hash_key (PStr s) = Inr (KStr s)"
| "hash_key (PList xs) = Inl TypeError"
| "hash_key (PDict d) = Inl TypeError"

text \<open>\<^verbatim>\<open>iter(x)\<close>: what a \<^verbatim>\<open>for\<close> loop or a comprehension runs over.\<close>

fun py_iter :: "pyval \<Rightarrow> py_error + pyval list" where
  "py_iter (PList xs) = Inr xs"
| "py_iter (PStr s) = Inr (map (\<lambda>c. PStr [c]) s)"
| "py_iter (PDict d) = Inr (map (\<lambda>kv. key_val (fst kv)) d)"
| "py_iter PNone = Inl TypeError"
| "py_iter (PBool b) = Inl TypeError"
| "py_iter (PInt i) = Inl TypeError"

text \<open>\<^verbatim>\<open>d.get(k, default)\<close> on a dictionary.\<close>

definition dict_get :: "pydict \<Rightarrow> pykey \<Rightarrow> pyval \<Rightarrow> pyval" where
  "dict_get d k dflt = (case map_of d k of None \<Rightarrow> dflt | Some v \<Rightarrow> v)"

text \<open>
  \<^verbatim>\<open>x.get(k, default)\<close> on any value: only a dictionary has the method, every other value
  raises \<^verbatim>\<open>AttributeError\<close>.
\<close>

fun py_get :: "pyval \<Rightarrow> pykey \<Rightarrow> pyval \<Rightarrow> py_error + pyval" where
  "py_get (PDict d) k dflt = Inr (dict_get d k dflt)"
| "py_get v k dflt = Inl AttributeError"

text \<open>
  \<^verbatim>\<open>dict(x)\<close>. A dictionary is copied. Any other iterable is read as a sequence of
  key/value pairs: an element that is not iterable raises \<^verbatim>\<open>TypeError\<close>, one whose length
  is not 2 raises \<^verbatim>\<open>ValueError\<close>, an unhashable key raises \<^verbatim>\<open>TypeError\<close>, and a key
  that comes twice keeps its first position and its last value. A value that is not iterable
  (\<^verbatim>\<open>None\<close>, a number) raises \<^verbatim>\<open>TypeError\<close>.
\<close>

fun dict_of_pairs :: "pydict \<Rightarrow> pyval list \<Rightarrow> py_error + pydict" where
  "dict_of_pairs acc [] = Inr acc"
| "dict_of_pairs acc (e # es) =
     (case py_iter e of
        Inl err \<Rightarrow> Inl err
      | Inr [k, v] \<Rightarrow>
          (case hash_key k of
             Inl err \<Rightarrow> Inl err
           | Inr k' \<Rightarrow> dict_of_pairs (AList.update k' v acc) es)
      | Inr _ \<Rightarrow> Inl ValueError)"

definition py_dict :: "pyval \<Rightarrow> py_error + pydict" where
  "py_dict x =
     (case x of
        PDict d \<Rightarrow> Inr d
      | _ \<Rightarrow> (case py_iter x of Inl err \<Rightarrow> Inl err | Inr es \<Rightarrow> dict_of_pairs [] es))"

subsection \<open>\<^verbatim>\<open>InventoryGenerator.merge\<close>\<close>

text \<open>
  \<^verbatim>\<open>
  def merge(self, a, b, path=None):
      """merges b into a"""
      if not all([a, b]):
          return dict(a)
      ...
      for key in b:
          if key in a:
              if isinstance(a[key], dict) and isinstance(b[key], dict):
                  self.merge(a[key], b[key], path + [str(key)])
              elif a[key] == b[key]:
                  pass  # same leaf value
              else:
                  pass
          else:
              a[key] = b[key]
      return dict(a)
  \<close>
  \<open>merge a b\<close> is the pair of the contents of the object \<^verbatim>\<open>a\<close> when the call returns and
  of the returned copy. \<open>merge_loop\<close> is the \<^verbatim>\<open>for\<close> loop, running over the items of
  \<^verbatim>\<open>b\<close> with the current contents of \<^verbatim>\<open>a\<close>. The recursive call discards what it returns
  and is made for its effect on the object \<^verbatim>\<open>a[key]\<close>. The argument \<^verbatim>\<open>path\<close> is only
  built, never read.
\<close>

fun merge :: "pydict \<Rightarrow> pydict \<Rightarrow> pydict \<times> pydict"
  and merge_loop :: "pydict \<Rightarrow> pydict \<Rightarrow> pydict" where
  "merge a b =
     (if \<not> (truthy (PDict a) \<and> truthy (PDict b)) then (a, a)
      else let a' = merge_loop a b in (a', a'))"
| "merge_loop a [] = a"
| "merge_loop a ((key, bv) # b) =
     merge_loop
       (case map_of a key of
          None \<Rightarrow> AList.update key bv a
        | Some av \<Rightarrow>
            (case (av, bv) of
               (PDict x, PDict y) \<Rightarrow> AList.update key (PDict (fst (merge x y))) a
             | _ \<Rightarrow> a))
       b"

text \<open>
  The mappings that occur in a value, the value itself included, each as often as it
  occurs; and those nested in a mapping, under its keys. Two occurrences of one object have
  the same value, so values in which no mapping occurs twice share no object.
\<close>

fun dicts_in :: "pyval \<Rightarrow> pydict list" where
  "dicts_in (PDict d) = d # concat (map (\<lambda>kv. dicts_in (snd kv)) d)"
| "dicts_in (PList xs) = concat (map dicts_in xs)"
| "dicts_in v = []"

definition nested_dicts :: "pydict \<Rightarrow> pydict list" where
  "nested_dicts d = concat (map (\<lambda>kv. dicts_in (snd kv)) d)"

subsection \<open>Strings\<close>

text \<open>\<^verbatim>\<open>s.split(sep)\<close> for a one-character separator: always at least one part.\<close>

fun split_on :: "char \<Rightarrow> string \<Rightarrow> string list" where
  "split_on sep [] = [[]]"
| "split_on sep (c # cs) =
     (if c = sep then [] # split_on sep cs
      else (case split_on sep cs of
              [] \<Rightarrow> [[c]]
            | part # parts \<Rightarrow> (c # part) # parts))"

text \<open>\<^verbatim>\<open>sep.join(parts)\<close>.\<close>

fun join :: "string \<Rightarrow> string list \<Rightarrow> string" where
  "join sep [] = []"
| "join sep [x] = x"
| "join sep (x # y # ys) = x @ sep @ join sep (y # ys)"

definition is_digit :: "char \<Rightarrow> bool" where
  "is_digit c = (c \<in> set ''0123456789'')"

definition digit_val :: "char \<Rightarrow> nat" where
  "digit_val c = of_char c - 48"

text \<open>The value of a string of decimal digits.\<close>

definition digits_val :: "string \<Rightarrow> nat" where
  "digits_val s = foldl (\<lambda>acc c. 10 * acc + digit_val c) 0 s"

text \<open>The decimal digits of a natural number.\<close>

fun str_of_nat :: "nat \<Rightarrow> string" where
  "str_of_nat n =
     (if n < 10 then [char_of (48 + n)]
      else str_of_nat (n div 10) @ [char_of (48 + n mod 10)])"

declare str_of_nat.simps [simp del]

text \<open>
  \<^verbatim>\<open>"%02d" % n\<close>: at least two characters, padded with zeros on the left; the sign of a
  negative number counts as one of them.
\<close>

definition format_02d :: "int \<Rightarrow> string" where
  "format_02d n =
     (if n < 0 then CHR ''-'' # str_of_nat (nat (- n))
      else (let d = str_of_nat (nat n) in if length d < 2 then CHR ''0'' # d else d))"

text \<open>
  \<^verbatim>\<open>int(s)\<close> on a string: white space around the number is dropped, a sign may come first,
  then decimal digits, where single underscores may stand between two digits. Anything else
  raises \<^verbatim>\<open>ValueError\<close>. The white space that \<^verbatim>\<open>int\<close> drops is the tab, the line
  feed, the vertical tab, the form feed, the carriage return and the space, and above the
  ASCII range the next-line character (133) and the no-break space (160); the separators
  28 to 31 are not dropped, although \<^verbatim>\<open>str.isspace\<close> counts them.
\<close>

definition is_space :: "char \<Rightarrow> bool" where
  "is_space c = (of_char c \<in> {9, 10, 11, 12, 13, 32, 133, 160 :: nat})"

definition strip :: "string \<Rightarrow> string" where
  "strip s = rev (dropWhile is_space (rev (dropWhile is_space s)))"

fun digit_groups :: "string \<Rightarrow> bool" where
  "digit_groups [] = False"
| "digit_groups [c] = is_digit c"
| "digit_groups (c # d # cs) =
     (is_digit c \<and> (if d = CHR ''_'' then digit_groups cs else digit_groups (d # cs)))"

definition py_int :: "string \<Rightarrow> py_error + int" where
  "py_int s =
     (let t = strip s;
          neg = (t \<noteq> [] \<and> hd t = CHR ''-'');
          u = (if t \<noteq> [] \<and> (hd t = CHR ''-'' \<or> hd t = CHR ''+'') then tl t else t)
      in if digit_groups u
         then Inr ((if neg then - 1 else 1) * int (digits_val (filter (\<lambda>c. c \<noteq> CHR ''_'') u)))
         else Inl ValueError)"

subsection \<open>The synthetic host name pattern\<close>

text \<open>
  \<^verbatim>\<open>re.compile('(.*)(\\[[\\d]+.*\\]).*')\<close>, matched with \<^verbatim>\<open>match\<close> at the start of a file
  name. \<open>greedy cls acc s k\<close> is a greedy repetition of a character class followed by the
  rest of the pattern \<open>k\<close>: it takes as many characters as it can and gives one back each time
  the rest fails, as the backtracking matcher does. \<^verbatim>\<open>.\<close> is any character but a line
  feed. The result is the pair of the two groups.
\<close>

fun greedy ::
  "(char \<Rightarrow> bool) \<Rightarrow> string \<Rightarrow> string \<Rightarrow> (string \<Rightarrow> string \<Rightarrow> 'a option) \<Rightarrow> 'a option" where
  "greedy cls acc [] k = k acc []"
| "greedy cls acc (c # cs) k =
     (if cls c
      then (case greedy cls (acc @ [c]) cs k of Some r \<Rightarrow> Some r | None \<Rightarrow> k acc (c # cs))
      else k acc (c # cs))"

definition dot :: "char \<Rightarrow> bool" where
  "dot c = (c \<noteq> CHR 0x0A)"

definition synthetic_hostname_pattern :: "string \<Rightarrow> (string \<times> string) option" where
  "synthetic_hostname_pattern name =
     greedy dot [] name (\<lambda>g1 r1.
       case r1 of
         [] \<Rightarrow> None
       | c # r2 \<Rightarrow>
           if c = CHR ''['' then
             greedy is_digit [] r2 (\<lambda>ds r3.
               if ds = [] then None
               else greedy dot [] r3 (\<lambda>mid r4.
                 case r4 of
                   [] \<Rightarrow> None
                 | d # r5 \<Rightarrow>
                     if d = CHR '']'' then
                       greedy dot [] r5 (\<lambda>_ _. Some (g1, CHR ''['' # ds @ mid @ [CHR '']'']))
                     else None))
           else None)"

subsection \<open>\<^verbatim>\<open>InventoryGenerator.expand_host\<close>\<close>

text \<open>
  \<^verbatim>\<open>
  range_group = expmatch.groups()[-1]
  range_string = range_group.translate(str.maketrans('', '', '[]'))
  hostnums = range_string.split('-')
  hoststring = expmatch.groups()[0]
  start = int(hostnums[0])
  if len(hostnums) > 1:
      end = int(hostnums[1]) + 1
  else:
      end = int(hostnums[0]) + 1
  for n_ in range(start, end):
      hostname_result = '{}{}'.format(hoststring, "%02d" % n_)
      yield hostname_result
  \<close>
  The second group is never empty (it starts with a bracket), so the first branch of the
  source's choice of \<^verbatim>\<open>range_group\<close> is always the one taken. Both conversions happen before
  the first name is yielded, so the generator either raises at once or yields every name.
\<close>

definition expand_host :: "string \<times> string \<Rightarrow> py_error + string list" where
  "expand_host expmatch =
     (let range_group = snd expmatch;
          range_string = filter (\<lambda>c. c \<noteq> CHR ''['' \<and> c \<noteq> CHR '']'') range_group;
          hostnums = split_on CHR ''-'' range_string;
          hoststring = fst expmatch
      in case py_int (hd hostnums) of
           Inl err \<Rightarrow> Inl err
         | Inr start \<Rightarrow>
             (case (if length hostnums > 1 then py_int (hostnums ! 1) else py_int (hd hostnums)) of
                Inl err \<Rightarrow> Inl err
              | Inr e \<Rightarrow>
                  (let end = e + 1
                   in Inr (map (\<lambda>n. hoststring @ format_02d n) [start..end - 1]))))"

subsection \<open>The environment\<close>

text \<open>
  What the plugin asks of the operating system and of its libraries.
  \<^item> \<open>is_file p\<close>: the Boolean that \<^verbatim>\<open>Path(p).is_file()\<close> returns. A test that itself
    raises (for a name that is too long, say) is not modelled.
  \<^item> \<open>read_file p\<close>: \<^verbatim>\<open>open(p).read()\<close>, the text or the exception raised.
  \<^item> \<open>yaml_load text\<close>: \<^verbatim>\<open>yaml.load(text, yaml.Loader)\<close>, the value or the exception raised.
  \<^item> \<open>glob dir pat\<close>: the names of the entries of \<open>dir\<close> that \<^verbatim>\<open>Path(dir).glob(pat)\<close>
    lists, in its order; nothing when \<open>dir\<close> is not a directory.
  \<^item> \<open>py_str v\<close>: how an f-string prints a value that is not a string.
\<close>

record os_env =
  is_file :: "string \<Rightarrow> bool"
  read_file :: "string \<Rightarrow> py_error + string"
  yaml_load :: "string \<Rightarrow> py_error + pyval"
  glob :: "string \<Rightarrow> string \<Rightarrow> string list"
  py_str :: "pyval \<Rightarrow> string"

text \<open>\<^verbatim>\<open>def read_yaml(y): return yaml.load(y, yaml.Loader)\<close>\<close>

definition read_yaml :: "os_env \<Rightarrow> string \<Rightarrow> py_error + pyval" where
  "read_yaml env y = yaml_load env y"

text \<open>\<^verbatim>\<open>read_yaml(open(p).read())\<close>: the file is opened and read first, then parsed.\<close>

definition read_yaml_file :: "os_env \<Rightarrow> string \<Rightarrow> py_error + pyval" where
  "read_yaml_file env p =
     (case read_file env p of Inl err \<Rightarrow> Inl err | Inr text \<Rightarrow> read_yaml env text)"

definition format_value :: "os_env \<Rightarrow> pyval \<Rightarrow> string" where
  "format_value env v = (case v of PStr s \<Rightarrow> s | _ \<Rightarrow> py_str env v)"

subsection \<open>Paths\<close>

text \<open>
  \<^verbatim>\<open>Path(p).parent.as_posix()\<close>, \<^verbatim>\<open>Path(p).name\<close> and \<^verbatim>\<open>Path(p).stem\<close> for a path in
  normal form. The stem drops the last suffix, unless the only dot is the first or the last
  character of the name.
\<close>

definition path_parent :: "string \<Rightarrow> string" where
  "path_parent p =
     (let parts = split_on CHR ''/'' p
      in if length parts = 1 then ''.''
         else if butlast parts = [[]] then ''/''
         else join ''/'' (butlast parts))"

definition path_name :: "string \<Rightarrow> string" where
  "path_name p = (if p = ''.'' \<or> p = ''/'' then [] else last (split_on CHR ''/'' p))"

definition path_stem :: "string \<Rightarrow> string" where
  "path_stem name =
     (case filter (\<lambda>i. name ! i = CHR ''.'') [0..<length name] of
        [] \<Rightarrow> name
      | j # js \<Rightarrow>
          (let i = last (j # js)
           in if 0 < i \<and> i < length name - 1 then take i name else name))"

text \<open>
  \<^verbatim>\<open>Path.joinpath(Path(dir), name).as_posix()\<close> for a relative \<open>name\<close>, which is also
  how \<^verbatim>\<open>Path(dir).glob\<close> names an entry of \<open>dir\<close>: the current directory \<^verbatim>\<open>.\<close> is
  dropped, and a root, which ends with its slash, gets no second one.
\<close>

definition path_join :: "string \<Rightarrow> string \<Rightarrow> string" where
  "path_join dir name =
     (if dir = ''.'' then name
      else if dir \<noteq> [] \<and> last dir = CHR ''/'' then dir @ name
      else dir @ ''/'' @ name)"

subsection \<open>\<^verbatim>\<open>InventoryGenerator.__init__\<close>\<close>

record inventory_generator =
  site_directory :: string
  site_definitions_directory :: string
  environment_domain :: string
  os_class_map :: pyval
  sub_group_map :: pyval

text \<open>
  \<^verbatim>\<open>
  os_class_map_arg = kwargs.get('os_class_map', '')
  if os_class_map_arg:
      if isinstance(os_class_map_arg, dict):
          self.os_class_map = os_class_map_arg
      elif Path(os_class_map_arg).is_file():
          os_class_map = read_yaml(open(os_class_map_arg).read())
          self.os_class_map = os_class_map.get('data', {})
      else:
          self.os_class_map = {}
  else:
      self.os_class_map = {}
  \<close>
  The same lines load \<^verbatim>\<open>sub_group_map\<close>; \<open>class_map_option\<close> is either block.
  \<^verbatim>\<open>Path(x)\<close> raises \<^verbatim>\<open>TypeError\<close> when \<^verbatim>\<open>x\<close> is neither a string nor a path.
\<close>

definition class_map_option :: "os_env \<Rightarrow> pyval \<Rightarrow> py_error + pyval" where
  "class_map_option env arg =
     (if truthy arg then
        (case arg of
           PDict d \<Rightarrow> Inr (PDict d)
         | PStr p \<Rightarrow>
             (if is_file env p then
                (case read_yaml_file env p of
                   Inl err \<Rightarrow> Inl err
                 | Inr class_map \<Rightarrow> py_get class_map (KStr ''data'') (PDict []))
              else Inr (PDict []))
         | _ \<Rightarrow> Inl TypeError)
      else Inr (PDict []))"

definition init :: "os_env \<Rightarrow> string \<Rightarrow> string \<Rightarrow> pyval \<Rightarrow> pyval \<Rightarrow> py_error + inventory_generator" where
  "init env site_dir domain os_class_map_arg sub_group_map_arg =
     (case class_map_option env os_class_map_arg of
        Inl err \<Rightarrow> Inl err
      | Inr om \<Rightarrow>
          (case class_map_option env sub_group_map_arg of
             Inl err \<Rightarrow> Inl err
           | Inr sm \<Rightarrow>
               Inr \<lparr> site_directory = site_dir,
                     site_definitions_directory = path_join site_dir ''definitions'',
                     environment_domain = domain,
                     os_class_map = om,
                     sub_group_map = sm \<rparr>))"

subsection \<open>\<^verbatim>\<open>InventoryGenerator.traverse_site\<close>\<close>

text \<open>
  A generator: the items it yields and the exception that ended it, if one did.
  \<open>stream_append\<close> runs one generator after another; the second is never started when the
  first raised.
\<close>

type_synonym 'a stream = "'a list \<times> py_error option"

definition stream_append :: "'a stream \<Rightarrow> 'a stream \<Rightarrow> 'a stream" where
  "stream_append s t =
     (case snd s of Some err \<Rightarrow> s | None \<Rightarrow> (fst s @ fst t, snd t))"

definition stream_concat :: "'a stream list \<Rightarrow> 'a stream" where
  "stream_concat ss = foldr stream_append ss ([], None)"

text \<open>
  The body of the inner loop, for the file \<open>name\<close> of the group directory \<open>dir\<close>:
  \<^verbatim>\<open>
  definition_file_name = definition_file.name
  definition_file_path = definition_file.as_posix()
  expanded_host = self.synthetic_hostname_pattern.match(definition_file_name)
  if expanded_host:
      for eh in self.expand_host(expmatch=expanded_host):
          hostname_short = eh
          eh_hostname = '%s.%s' % (eh, self.environment_domain)
          yield (definition_file_path, eh_hostname, hostname_short)
  else:
      hostname_short = definition_file.stem
      if hostname_short == 'localhost':
          hostname = hostname_short
      else:
          hostname = f'{hostname_short}.{self.environment_domain}'
      yield (definition_file_path, hostname, hostname_short)
  \<close>
  A host identity is the tuple \<open>[path, fqdn, short]\<close>.
\<close>

definition site_file :: "inventory_generator \<Rightarrow> string \<Rightarrow> string \<Rightarrow> string list stream" where
  "site_file gen dir name =
     (let definition_file_name = name;
          definition_file_path = path_join dir name
      in case synthetic_hostname_pattern definition_file_name of
           Some expanded_host \<Rightarrow>
             (case expand_host expanded_host of
                Inl err \<Rightarrow> ([], Some err)
              | Inr ehs \<Rightarrow>
                  (map (\<lambda>eh. [definition_file_path, eh @ ''.'' @ environment_domain gen, eh]) ehs,
                   None))
         | None \<Rightarrow>
             (let hostname_short = path_stem name;
                  hostname = (if hostname_short = ''localhost'' then hostname_short
                              else hostname_short @ ''.'' @ environment_domain gen)
              in ([[definition_file_path, hostname, hostname_short]], None)))"

text \<open>
  \<^verbatim>\<open>
  definition_file_dirs = (f for f in Path(directory).glob('*') if f.is_dir)
  for definition_file_dir in definition_file_dirs:
      for definition_file in Path(definition_file_dir).glob('*.yaml'):
  \<close>
  \<^verbatim>\<open>f.is_dir\<close> is the method, not a call of it, so no entry is filtered out; an entry that
  is not a directory lists no file.
\<close>

definition traverse_site :: "os_env \<Rightarrow> inventory_generator \<Rightarrow> string \<Rightarrow> string list stream" where
  "traverse_site env gen directory =
     stream_concat
       (map (\<lambda>d. let definition_file_dir = path_join directory d
                 in stream_concat
                      (map (site_file gen definition_file_dir)
                         (glob env definition_file_dir ''*.yaml'')))
          (glob env directory ''*''))"

subsection \<open>\<^verbatim>\<open>InventoryGenerator.generate_host_data\<close>\<close>

text \<open>\<^verbatim>\<open>r[i]\<close> on a tuple.\<close>

definition tuple_item :: "'a list \<Rightarrow> nat \<Rightarrow> py_error + 'a" where
  "tuple_item r i = (if i < length r then Inr (r ! i) else Inl IndexError)"

definition dict_set :: "pydict \<Rightarrow> pykey \<Rightarrow> pyval \<Rightarrow> pydict" where
  "dict_set d k v = AList.update k v d"

text \<open>
  The comprehension
  \<^verbatim>\<open>[dict(f.get('set_fact', {})) for f in definition_data if dict(f.get('set_fact', {}))]\<close>.
\<close>

fun set_facts :: "pyval list \<Rightarrow> py_error + pydict list" where
  "set_facts [] = Inr []"
| "set_facts (f # fs) =
     (case py_get f (KStr ''set_fact'') (PDict []) of
        Inl err \<Rightarrow> Inl err
      | Inr v \<Rightarrow>
          (case py_dict v of
             Inl err \<Rightarrow> Inl err
           | Inr d \<Rightarrow>
               (if truthy (PDict d) then
                  (case set_facts fs of Inl err \<Rightarrow> Inl err | Inr ds \<Rightarrow> Inr (d # ds))
                else set_facts fs)))"

text \<open>
  The loop over the facts, starting from \<^verbatim>\<open>definition_file_vars = {}\<close>:
  \<^verbatim>\<open>
  for fact_vars in definition_file_facts:
      definition_file_vars = self.merge(fact_vars, definition_file_vars)
  \<close>
  The fact of the current entry is the first argument of \<^verbatim>\<open>merge\<close>, what was collected
  from the entries before it is the second.
\<close>

definition merge_facts :: "pydict list \<Rightarrow> pydict" where
  "merge_facts definition_file_facts =
     foldl (\<lambda>definition_file_vars fact_vars. snd (merge fact_vars definition_file_vars))
       [] definition_file_facts"

text \<open>
  The body of the \<^verbatim>\<open>try\<close> statement, with whatever it raises:
  \<^verbatim>\<open>
  if isinstance(definition_data, dict):
      definition_file_vars = dict(definition_data[0].get('vars', {}))
  elif isinstance(definition_data, list):
      definition_file_facts = [...]
      for fact_vars in definition_file_facts:
          definition_file_vars = self.merge(fact_vars, definition_file_vars)
  \<close>
\<close>

definition read_vars :: "pyval \<Rightarrow> py_error + pydict" where
  "read_vars definition_data =
     (case definition_data of
        PDict d \<Rightarrow>
          (case map_of d (KInt 0) of
             None \<Rightarrow> Inl KeyError
           | Some entry \<Rightarrow>
               (case py_get entry (KStr ''vars'') (PDict []) of
                  Inl err \<Rightarrow> Inl err
                | Inr v \<Rightarrow> py_dict v))
      | PList fs \<Rightarrow>
          (case set_facts fs of
             Inl err \<Rightarrow> Inl err
           | Inr definition_file_facts \<Rightarrow> Inr (merge_facts definition_file_facts))
      | _ \<Rightarrow> Inr [])"

text \<open>
  The \<^verbatim>\<open>try\<close> statement: \<^verbatim>\<open>except TypeError\<close> leaves \<^verbatim>\<open>definition_file_vars = {}\<close>;
  every other exception goes on to the caller.
\<close>

definition definition_file_vars :: "pyval \<Rightarrow> py_error + pydict" where
  "definition_file_vars definition_data =
     (case read_vars definition_data of
        Inl err \<Rightarrow> (if err = TypeError then Inr [] else Inl err)
      | Inr vars \<Rightarrow> Inr vars)"

text \<open>
  \<^verbatim>\<open>list(c.keys())[0]\<close> and \<^verbatim>\<open>list(c.values())[0]\<close>: \<^verbatim>\<open>AttributeError\<close> when \<^verbatim>\<open>c\<close> is
  not a dictionary, \<^verbatim>\<open>IndexError\<close> when it is empty.
\<close>

fun first_key :: "pyval \<Rightarrow> py_error + pyval" where
  "first_key (PDict []) = Inl IndexError"
| "first_key (PDict (kv # d)) = Inr (key_val (fst kv))"
| "first_key v = Inl AttributeError"

fun first_value :: "pyval \<Rightarrow> py_error + pyval" where
  "first_value (PDict []) = Inl IndexError"
| "first_value (PDict (kv # d)) = Inr (snd kv)"
| "first_value v = Inl AttributeError"

text \<open>A comprehension whose element expression can raise: the first exception wins.\<close>

fun map_err :: "('a \<Rightarrow> py_error + 'b) \<Rightarrow> 'a list \<Rightarrow> py_error + 'b list" where
  "map_err f [] = Inr []"
| "map_err f (x # xs) =
     (case f x of
        Inl err \<Rightarrow> Inl err
      | Inr y \<Rightarrow> (case map_err f xs of Inl err \<Rightarrow> Inl err | Inr ys \<Rightarrow> Inr (y # ys)))"

text \<open>
  \<^verbatim>\<open>[sel(c) for k, v in class_map.items() for c in v if code == k]\<close>: every \<^verbatim>\<open>v\<close> is
  iterated, also under a key that is not the code; \<^verbatim>\<open>sel(c)\<close> is evaluated under the key
  that is.
\<close>

fun class_entries :: "(pyval \<Rightarrow> py_error + pyval) \<Rightarrow> string \<Rightarrow> pydict \<Rightarrow> py_error + pyval list" where
  "class_entries sel code [] = Inr []"
| "class_entries sel code ((k, v) # items) =
     (case py_iter v of
        Inl err \<Rightarrow> Inl err
      | Inr cs \<Rightarrow>
          (case (if k = KStr code then map_err sel cs else Inr []) of
             Inl err \<Rightarrow> Inl err
           | Inr xs \<Rightarrow>
               (case class_entries sel code items of
                  Inl err \<Rightarrow> Inl err
                | Inr ys \<Rightarrow> Inr (xs @ ys))))"

definition class_lookup :: "(pyval \<Rightarrow> py_error + pyval) \<Rightarrow> pyval \<Rightarrow> string \<Rightarrow> py_error + pyval list" where
  "class_lookup sel class_map code =
     (case class_map of
        PDict items \<Rightarrow> class_entries sel code items
      | _ \<Rightarrow> Inl AttributeError)"

text \<open>
  \<^verbatim>\<open>
  host_data = {}
  hostname_parts = hostname.split('-')
  if hostname == 'localhost':
      host_data['primary_group'] = 'ansible_controller'
      host_data['os_classes'] = ['local']
      host_data['sub_groups'] = ['local']
  elif len(hostname_parts) == 1:
      continue
  elif len(hostname_parts) > 0:
      os_class = hostname_parts[0]
      sub_group = hostname_parts[1] if len(hostname_parts) > 1 else 'misc'
      host_data['os_classes'] = [list(c.keys())[0] for k, v in self.os_class_map.items() ...]
      host_data['os_class_names'] = [list(c.values())[0] for k, v in self.os_class_map.items() ...]
      host_data['sub_groups'] = [list(g.keys())[0] for k, v in self.sub_group_map.items() ...]
      host_data['sub_group_names'] = [list(g.values())[0] for k, v in self.sub_group_map.items() ...]
      host_data['primary_group'] = primary_group
  \<close>
  \<open>None\<close> is the \<^verbatim>\<open>continue\<close>: the host is skipped.
\<close>

definition classification ::
  "inventory_generator \<Rightarrow> string \<Rightarrow> string \<Rightarrow> py_error + pydict option" where
  "classification gen primary_group hostname =
     (let host_data = [];
          hostname_parts = split_on CHR ''-'' hostname
      in if hostname = ''localhost'' then
           Inr (Some
             (dict_set
                (dict_set
                   (dict_set host_data (KStr ''primary_group'') (PStr ''ansible_controller''))
                   (KStr ''os_classes'') (PList [PStr ''local'']))
                (KStr ''sub_groups'') (PList [PStr ''local''])))
         else if length hostname_parts = 1 then Inr None
         else if length hostname_parts > 0 then
           (let os_class = hostname_parts ! 0;
                sub_group = (if length hostname_parts > 1 then hostname_parts ! 1 else ''misc'')
            in case class_lookup first_key (os_class_map gen) os_class of
                 Inl err \<Rightarrow> Inl err
               | Inr os_classes \<Rightarrow>
             (case class_lookup first_value (os_class_map gen) os_class of
                 Inl err \<Rightarrow> Inl err
               | Inr os_class_names \<Rightarrow>
             (case class_lookup first_key (sub_group_map gen) sub_group of
                 Inl err \<Rightarrow> Inl err
               | Inr sub_groups \<Rightarrow>
             (case class_lookup first_value (sub_group_map gen) sub_group of
                 Inl err \<Rightarrow> Inl err
               | Inr sub_group_names \<Rightarrow>
                   Inr (Some
                     (dict_set
                        (dict_set
                           (dict_set
                              (dict_set
                                 (dict_set host_data (KStr ''os_classes'') (PList os_classes))
                                 (KStr ''os_class_names'') (PList os_class_names))
                              (KStr ''sub_groups'') (PList sub_groups))
                           (KStr ''sub_group_names'') (PList sub_group_names))
                        (KStr ''primary_group'') (PStr primary_group)))))))
         else Inr (Some host_data))"

text \<open>
  \<^verbatim>\<open>
  host_data['hostname'] = hostname_short
  host_data['fqdn'] = hostname
  host_data['definition_file'] = definition_file
  host_data['default_group_path'] = default_group_path
  host_data['site_directory'] = self.site_directory
  host_data['environment_domain'] = self.environment_domain
  host_data['ansible_host'] = hostname
  \<close>
\<close>

definition base_fields ::
  "inventory_generator \<Rightarrow> string \<Rightarrow> string \<Rightarrow> string \<Rightarrow> string \<Rightarrow> pydict \<Rightarrow> pydict" where
  "base_fields gen definition_file default_group_path hostname hostname_short host_data =
     dict_set
       (dict_set
          (dict_set
             (dict_set
                (dict_set
                   (dict_set
                      (dict_set host_data (KStr ''hostname'') (PStr hostname_short))
                      (KStr ''fqdn'') (PStr hostname))
                   (KStr ''definition_file'') (PStr definition_file))
                (KStr ''default_group_path'') (PStr default_group_path))
             (KStr ''site_directory'') (PStr (site_directory gen)))
          (KStr ''environment_domain'') (PStr (environment_domain gen)))
       (KStr ''ansible_host'') (PStr hostname)"

text \<open>
  \<^verbatim>\<open>
  ansible_real_host = host_data.get('ansible_real_host')
  if ansible_real_host:
      host_data['ansible_ssh_host'] = ansible_real_host
  else:
      host_data['ansible_ssh_host'] = hostname
      host_data['ansible_winrm_host'] = hostname
  system_type = host_data.get('system_type')
  if system_type == 'lxd':
      lxd_host = host_data.get('lxd_host')
      if lxd_host:
          host_data['ansible_host'] = f'{lxd_host}:{hostname_short}'
  elif system_type == 'qemu':
      host_data['ansible_host'] = f'{hostname_short}'
      host_data['ansible_ssh_host'] = f'{hostname_short}'
  \<close>
\<close>

definition connection_fields :: "os_env \<Rightarrow> string \<Rightarrow> string \<Rightarrow> pydict \<Rightarrow> pydict" where
  "connection_fields env hostname hostname_short host_data =
     (let ansible_real_host = dict_get host_data (KStr ''ansible_real_host'') PNone;
          host_data1 =
            (if truthy ansible_real_host
             then dict_set host_data (KStr ''ansible_ssh_host'') ansible_real_host
             else dict_set
                    (dict_set host_data (KStr ''ansible_ssh_host'') (PStr hostname))
                    (KStr ''ansible_winrm_host'') (PStr hostname));
          system_type = dict_get host_data1 (KStr ''system_type'') PNone
      in if system_type = PStr ''lxd'' then
           (let lxd_host = dict_get host_data1 (KStr ''lxd_host'') PNone
            in if truthy lxd_host
               then dict_set host_data1 (KStr ''ansible_host'')
                      (PStr (format_value env lxd_host @ '':'' @ hostname_short))
               else host_data1)
         else if system_type = PStr ''qemu'' then
           dict_set
             (dict_set host_data1 (KStr ''ansible_host'') (PStr hostname_short))
             (KStr ''ansible_ssh_host'') (PStr hostname_short)
         else host_data1)"

text \<open>
  One turn of the loop over \<^verbatim>\<open>inv_obj_pairs\<close>, for the tuple \<open>r\<close>: an exception, \<open>None\<close>
  for a \<^verbatim>\<open>continue\<close>, or the record yielded. The definition file is read and parsed
  outside the \<^verbatim>\<open>try\<close> statement, before anything else is looked at:
  \<^verbatim>\<open>
  if not r:
      continue
  inv_obj = Path(r[0])
  default_group_path = (inv_obj.parent).as_posix()
  primary_group = Path(default_group_path).name
  definition_file = r[0]
  definition_data = read_yaml(open(definition_file).read())
  ...
  hostparts = r[0].split('@')
  if len(hostparts) > 1:
      parent = '.'.join(hostparts[1].split('.')[0:-1])
      hostname = f'{parent}:{r[1]}'
  else:
      hostname = r[1]
  hostname_short = r[2]
  ...
  host_data = self.merge(host_data, definition_file_vars)
  ...
  yield host_data
  \<close>
\<close>

definition processed_name :: "string \<Rightarrow> string \<Rightarrow> string" where
  "processed_name definition_file fqdn =
     (let hostparts = split_on CHR ''@'' definition_file
      in if length hostparts > 1
         then (let parent = join ''.'' (butlast (split_on CHR ''.'' (hostparts ! 1)))
               in parent @ '':'' @ fqdn)
         else fqdn)"

definition generate_host ::
  "os_env \<Rightarrow> inventory_generator \<Rightarrow> string list \<Rightarrow> py_error + pydict option" where
  "generate_host env gen r =
     (if r = [] then Inr None
      else
        (let definition_file = r ! 0;
             default_group_path = path_parent definition_file;
             primary_group = path_name default_group_path
         in case read_yaml_file env definition_file of
              Inl err \<Rightarrow> Inl err
            | Inr definition_data \<Rightarrow>
          (case definition_file_vars definition_data of
              Inl err \<Rightarrow> Inl err
            | Inr vars \<Rightarrow>
          (case tuple_item r 1 of
              Inl err \<Rightarrow> Inl err
            | Inr fqdn \<Rightarrow>
          (let hostname = processed_name definition_file fqdn
           in case tuple_item r 2 of
                Inl err \<Rightarrow> Inl err
              | Inr hostname_short \<Rightarrow>
            (case classification gen primary_group hostname of
                Inl err \<Rightarrow> Inl err
              | Inr None \<Rightarrow> Inr None
              | Inr (Some host_data) \<Rightarrow>
                  Inr (Some
                    (connection_fields env hostname hostname_short
                       (snd (merge
                               (base_fields gen definition_file default_group_path
                                  hostname hostname_short host_data)
                               vars))))))))))"

text \<open>
  The generator: the records yielded, until a turn raises or the stream of tuples does.
\<close>

fun host_records ::
  "os_env \<Rightarrow> inventory_generator \<Rightarrow> string list list \<Rightarrow> pydict stream" where
  "host_records env gen [] = ([], None)"
| "host_records env gen (r # rs) =
     (case generate_host env gen r of
        Inl err \<Rightarrow> ([], Some err)
      | Inr None \<Rightarrow> host_records env gen rs
      | Inr (Some host_data) \<Rightarrow>
          (host_data # fst (host_records env gen rs), snd (host_records env gen rs)))"

definition generate_host_data ::
  "os_env \<Rightarrow> inventory_generator \<Rightarrow> string list stream \<Rightarrow> pydict stream" where
  "generate_host_data env gen inv_obj_pairs =
     stream_append (host_records env gen (fst inv_obj_pairs)) ([], snd inv_obj_pairs)"

subsection \<open>\<^verbatim>\<open>InventoryGenerator.generate_inventory\<close>\<close>

text \<open>
  The output: \<open>all_hosts\<close> is \<^verbatim>\<open>output["all"]["hosts"]\<close> and \<open>hostvars\<close> is
  \<^verbatim>\<open>output["_meta"]["hostvars"]\<close>; \<^verbatim>\<open>output["all"]["vars"]\<close> stays empty.
\<close>

record inventory_output =
  all_hosts :: "pyval list"
  hostvars :: "(pykey \<times> pydict) list"

text \<open>
  \<^verbatim>\<open>
  for host_alias in host_aliases:
      output["_meta"]["hostvars"][host_alias] = host_record
      output["all"]["hosts"].append(host_alias)
  \<close>
\<close>

fun add_aliases :: "inventory_output \<Rightarrow> pydict \<Rightarrow> pyval list \<Rightarrow> py_error + inventory_output" where
  "add_aliases out host_record [] = Inr out"
| "add_aliases out host_record (host_alias # rest) =
     (case hash_key host_alias of
        Inl err \<Rightarrow> Inl err
      | Inr k \<Rightarrow>
          add_aliases
            (out \<lparr> hostvars := AList.update k host_record (hostvars out),
                   all_hosts := all_hosts out @ [host_alias] \<rparr>)
            host_record rest)"

text \<open>
  \<^verbatim>\<open>
  hostname = host_record['hostname']
  host_aliases = host_record.get('host_aliases', [])
  for host_alias in host_aliases: ...
  output["_meta"]["hostvars"][hostname] = host_record
  output["all"]["hosts"].append(hostname)
  \<close>
\<close>

definition add_host :: "inventory_output \<Rightarrow> pydict \<Rightarrow> py_error + inventory_output" where
  "add_host out host_record =
     (case map_of host_record (KStr ''hostname'') of
        None \<Rightarrow> Inl KeyError
      | Some hostname \<Rightarrow>
          (let host_aliases = dict_get host_record (KStr ''host_aliases'') (PList [])
           in case py_iter host_aliases of
                Inl err \<Rightarrow> Inl err
              | Inr aliases \<Rightarrow>
                  (case add_aliases out host_record aliases of
                     Inl err \<Rightarrow> Inl err
                   | Inr out1 \<Rightarrow>
                       (case hash_key hostname of
                          Inl err \<Rightarrow> Inl err
                        | Inr k \<Rightarrow>
                            Inr (out1 \<lparr> hostvars := AList.update k host_record (hostvars out1),
                                        all_hosts := all_hosts out1 @ [hostname] \<rparr>)))))"

fun add_hosts :: "inventory_output \<Rightarrow> pydict list \<Rightarrow> py_error + inventory_output" where
  "add_hosts out [] = Inr out"
| "add_hosts out (host_record # rest) =
     (case add_host out host_record of
        Inl err \<Rightarrow> Inl err
      | Inr out1 \<Rightarrow> add_hosts out1 rest)"

text \<open>
  \<^verbatim>\<open>
  if (host_mock):
      inv = [(host_mock, host_mock)]
  else:
      if host_filter:
          inv = [f for f in self.traverse_site(self.site_definitions_directory) if f[1] in host_filter]
      else:
          inv = self.traverse_site(self.site_definitions_directory)
  host_data = self.generate_host_data(inv)
  \<close>
  An absent \<^verbatim>\<open>host_mock\<close> is the empty string and an absent \<^verbatim>\<open>filter\<close> the empty list.
  With a filter the walk is finished before the first record is built, so an exception of
  the walk leaves no tuple. The loop over the records runs as they are yielded: an
  exception of the generator is met after the records before it are added.
\<close>

definition generate_inventory ::
  "os_env \<Rightarrow> inventory_generator \<Rightarrow> string \<Rightarrow> string list \<Rightarrow> py_error + inventory_output" where
  "generate_inventory env gen host_mock host_filter =
     (let inv =
            (if host_mock \<noteq> [] then ([[host_mock, host_mock]], None)
             else if host_filter \<noteq> [] then
               (case traverse_site env gen (site_definitions_directory gen) of
                  (fs, Some err) \<Rightarrow> ([], Some err)
                | (fs, None) \<Rightarrow> (filter (\<lambda>f. f ! 1 \<in> set host_filter) fs, None))
             else traverse_site env gen (site_definitions_directory gen));
          host_data = generate_host_data env gen inv
      in case add_hosts \<lparr> all_hosts = [], hostvars = [] \<rparr> (fst host_data) of
           Inl err \<Rightarrow> Inl err
         | Inr output \<Rightarrow>
             (case snd host_data of Some err \<Rightarrow> Inl err | None \<Rightarrow> Inr output))"

subsection \<open>The fact-list rule as the specification words it\<close>

text \<open>
  The facts of a file as the specification reads them: the \<^verbatim>\<open>set_fact\<close> mappings of the
  entries, in file order. An entry without one, or with an empty one, adds nothing.
\<close>

definition fact_mappings :: "pyval list \<Rightarrow> pydict list" where
  "fact_mappings entries =
     concat (map (\<lambda>e. case e of
                         PDict m \<Rightarrow>
                           (case map_of m (KStr ''set_fact'') of
                              Some (PDict f) \<Rightarrow> (if f = [] then [] else [f])
                            | _ \<Rightarrow> [])
                       | _ \<Rightarrow> []) entries)"

text \<open>
  The specification's reading of the fact list, for comparison with \<open>merge_facts\<close>: the
  facts are taken in file order, the value of an earlier entry is kept, and a later entry
  only adds the keys that no earlier entry has.
\<close>

definition claimed_vars :: "pydict list \<Rightarrow> pydict" where
  "claimed_vars facts =
     foldl (\<lambda>vars fact. vars @ filter (\<lambda>kv. fst kv \<notin> set (map fst vars)) fact) [] facts"

subsection \<open>Finite environments\<close>

text \<open>
  An environment given by finite tables, for the examples: the files with their text, the
  texts that parse with the value they parse to (every other text is malformed), and the
  directory listings by directory and pattern. A path that is not in the table of files
  cannot be read.
\<close>

definition finite_env ::
  "(string \<times> string) list \<Rightarrow> (string \<times> pyval) list
     \<Rightarrow> ((string \<times> string) \<times> string list) list \<Rightarrow> os_env" where
  "finite_env files documents listings =
     \<lparr> is_file = (\<lambda>p. p \<in> set (map fst files)),
       read_file = (\<lambda>p. case map_of files p of None \<Rightarrow> Inl OSError | Some text \<Rightarrow> Inr text),
       yaml_load = (\<lambda>text. case map_of documents text of
                              None \<Rightarrow> Inl YAMLError
                            | Some v \<Rightarrow> Inr v),
       glob = (\<lambda>dir pat. case map_of listings (dir, pat) of
                             None \<Rightarrow> []
                           | Some names \<Rightarrow> names),
       py_str = (\<lambda>v. []) \<rparr>"

section \<open>Properties\<close>

subsection \<open>The merge rule\<close>

declare merge.simps [simp del]

lemma fst_merge: "fst (merge a b) = snd (merge a b)"
  by (simp add: merge.simps Let_def)

lemma merge_is_loop: "a \<noteq> [] \<Longrightarrow> b \<noteq> [] \<Longrightarrow> snd (merge a b) = merge_loop a b"
  by (simp add: merge.simps Let_def)

text \<open>
  What the loop leaves under a key, when no key comes twice in \<^verbatim>\<open>b\<close>: each key of
  \<^verbatim>\<open>b\<close> is then handled once, on the value that \<^verbatim>\<open>a\<close> had for it at the start.
\<close>

lemma map_of_merge_loop:
  "distinct (map fst b) \<Longrightarrow>
   map_of (merge_loop a b) k =
     (case map_of b k of
        None \<Rightarrow> map_of a k
      | Some bv \<Rightarrow>
          (case map_of a k of
             None \<Rightarrow> Some bv
           | Some av \<Rightarrow>
               (case (av, bv) of
                  (PDict x, PDict y) \<Rightarrow> Some (PDict (fst (merge x y)))
                | _ \<Rightarrow> Some av)))"
proof (induction b arbitrary: a)
  case Nil
  then show ?case by simp
next
  case (Cons p b)
  obtain key bv where p: "p = (key, bv)" by (cases p)
  from Cons.prems p have notin: "map_of b key = None" and dist: "distinct (map fst b)"
    by (auto simp: map_of_eq_None_iff)
  show ?case
  proof (cases "k = key")
    case True
    then show ?thesis
      using notin p Cons.IH [OF dist]
      by (auto simp: AList.update_conv' split: option.splits pyval.splits)
  next
    case False
    then show ?thesis
      using p Cons.IH [OF dist]
      by (auto simp: AList.update_conv' split: option.splits pyval.splits)
  qed
qed

text \<open>The keys after the loop, in order: those of \<^verbatim>\<open>a\<close>, then the new ones of \<^verbatim>\<open>b\<close>.\<close>

lemma keys_merge_loop:
  "distinct (map fst b) \<Longrightarrow>
   map fst (merge_loop a b) = map fst a @ filter (\<lambda>k. k \<notin> set (map fst a)) (map fst b)"
proof (induction b arbitrary: a)
  case Nil
  then show ?case by simp
next
  case (Cons p b)
  obtain key bv where p: "p = (key, bv)" by (cases p)
  from Cons.prems p have notin: "key \<notin> set (map fst b)" and dist: "distinct (map fst b)"
    by auto
  show ?case
  proof (cases "map_of a key")
    case None
    then have nk: "key \<notin> set (map fst a)" by (simp add: map_of_eq_None_iff)
    have "filter (\<lambda>k. k \<noteq> key \<and> k \<notin> set (map fst a)) (map fst b)
            = filter (\<lambda>k. k \<notin> set (map fst a)) (map fst b)"
      using notin by (intro filter_cong) auto
    then show ?thesis
      using p None nk Cons.IH [OF dist, of "AList.update key bv a"]
      by (simp add: AList.update_keys)
  next
    case (Some av)
    then have ik: "key \<in> set (map fst a)"
      by (metis map_of_eq_None_iff option.distinct(1) set_map)
    define a' where "a' = (case (av, bv) of
               (PDict x, PDict y) \<Rightarrow> AList.update key (PDict (fst (merge x y))) a
             | _ \<Rightarrow> a)"
    have keys: "map fst a' = map fst a"
      using ik by (auto simp: a'_def AList.update_keys split: pyval.splits)
    have step: "merge_loop a (p # b) = merge_loop a' b"
      using p Some by (simp add: a'_def)
    show ?thesis
      unfolding step Cons.IH [OF dist, of a'] keys using p ik by simp
  qed
qed

text \<open>A value of \<^verbatim>\<open>a\<close> that is not a dictionary is never touched, whatever \<^verbatim>\<open>b\<close> holds.\<close>

lemma merge_loop_keeps:
  "map_of a k = Some av \<Longrightarrow> (\<forall>x. av \<noteq> PDict x) \<Longrightarrow> map_of (merge_loop a b) k = Some av"
proof (induction b arbitrary: a)
  case Nil
  then show ?case by simp
next
  case (Cons p b)
  obtain key bv where p: "p = (key, bv)" by (cases p)
  show ?case
    using p Cons.prems
    by (auto intro!: Cons.IH simp: AList.update_conv' split: option.splits pyval.splits)
qed

text \<open>
  Claim C2. For two non-empty mappings \<^verbatim>\<open>a\<close> and \<^verbatim>\<open>b\<close> that share no object the
  call writes to, the mapping that \<^verbatim>\<open>merge(a, b)\<close> returns has the keys of \<^verbatim>\<open>a\<close>
  followed by the keys of \<^verbatim>\<open>b\<close> that \<^verbatim>\<open>a\<close> lacks; under a key of \<^verbatim>\<open>a\<close> it holds
  the value of \<^verbatim>\<open>a\<close>, except that two mappings under the same key are merged by the same
  rule; under a key that only \<^verbatim>\<open>b\<close> has it holds the value of \<^verbatim>\<open>b\<close>. When no key holds
  a mapping in both, every value of \<^verbatim>\<open>a\<close> is kept as it is. In particular
  \<^verbatim>\<open>merge({"a":1}, {"a":2,"b":3})\<close> is \<^verbatim>\<open>{"a":1,"b":3}\<close>. The keys of a Python
  dictionary are distinct, which is the third hypothesis. The fourth excludes shared objects
  in one of two ways: no mapping occurs twice in \<^verbatim>\<open>a\<close> and \<^verbatim>\<open>b\<close>, themselves included;
  or no key holds a mapping in both, so that the call makes no nested write, and \<^verbatim>\<open>a\<close>
  is not one of the mappings nested in \<^verbatim>\<open>b\<close>.
\<close>

theorem merge_nonempty:
  assumes "a \<noteq> []" and "b \<noteq> []" and "distinct (map fst b)"
    and "distinct (dicts_in (PDict a) @ dicts_in (PDict b))
         \<or> (\<forall>k x y. map_of a k = Some (PDict x) \<longrightarrow> map_of b k \<noteq> Some (PDict y))
           \<and> a \<notin> set (nested_dicts b)"
  shows "map fst (snd (merge a b)) = map fst a @ filter (\<lambda>k. k \<notin> set (map fst a)) (map fst b)
    \<and> (\<forall>k av. map_of a k = Some av \<longrightarrow>
          map_of (snd (merge a b)) k =
            (case (av, map_of b k) of
               (PDict x, Some (PDict y)) \<Rightarrow> Some (PDict (snd (merge x y)))
             | _ \<Rightarrow> Some av))
    \<and> (\<forall>k. map_of a k = None \<longrightarrow> map_of (snd (merge a b)) k = map_of b k)
    \<and> ((\<forall>k x y. map_of a k = Some (PDict x) \<longrightarrow> map_of b k \<noteq> Some (PDict y)) \<longrightarrow>
          (\<forall>k av. map_of a k = Some av \<longrightarrow> map_of (snd (merge a b)) k = Some av))
    \<and> snd (merge [(KStr ''a'', PInt 1)] [(KStr ''a'', PInt 2), (KStr ''b'', PInt 3)])
        = [(KStr ''a'', PInt 1), (KStr ''b'', PInt 3)]"
proof -
  have loop: "snd (merge a b) = merge_loop a b"
    using assms(1,2) by (rule merge_is_loop)
  have keys: "map fst (snd (merge a b))
                = map fst a @ filter (\<lambda>k. k \<notin> set (map fst a)) (map fst b)"
    unfolding loop using assms(3) by (rule keys_merge_loop)
  have both: "map_of (snd (merge a b)) k =
            (case (av, map_of b k) of
               (PDict x, Some (PDict y)) \<Rightarrow> Some (PDict (snd (merge x y)))
             | _ \<Rightarrow> Some av)" if "map_of a k = Some av" for k av
    unfolding loop using that
    by (simp add: map_of_merge_loop [OF assms(3)] fst_merge split: option.splits pyval.splits)
  have fill: "map_of (snd (merge a b)) k = map_of b k" if "map_of a k = None" for k
    unfolding loop using that
    by (simp add: map_of_merge_loop [OF assms(3)] split: option.splits)
  have kept: "map_of (snd (merge a b)) k = Some av"
    if "\<forall>k x y. map_of a k = Some (PDict x) \<longrightarrow> map_of b k \<noteq> Some (PDict y)"
      and "map_of a k = Some av" for k av
    using both [OF that(2)] that by (auto split: pyval.splits option.splits)
  have ex: "snd (merge [(KStr ''a'', PInt 1)] [(KStr ''a'', PInt 2), (KStr ''b'', PInt 3)])
        = [(KStr ''a'', PInt 1), (KStr ''b'', PInt 3)]"
    by (simp add: merge.simps Let_def)
  from keys both fill kept ex show ?thesis by blast
qed

theorem merge_nonempty_witness:
  "map fst (snd (merge [(KStr ''a'', PInt 1), (KStr ''n'', PDict [(KStr ''x'', PInt 1)])]
                       [(KStr ''a'', PInt 2), (KStr ''b'', PInt 3),
                        (KStr ''n'', PDict [(KStr ''y'', PInt 2)])]))
     = [KStr ''a'', KStr ''n'', KStr ''b'']
   \<and> map_of (snd (merge [(KStr ''a'', PInt 1), (KStr ''n'', PDict [(KStr ''x'', PInt 1)])]
                       [(KStr ''a'', PInt 2), (KStr ''b'', PInt 3),
                        (KStr ''n'', PDict [(KStr ''y'', PInt 2)])]))
        (KStr ''a'') = Some (PInt 1)
   \<and> map_of (snd (merge [(KStr ''a'', PInt 1), (KStr ''n'', PDict [(KStr ''x'', PInt 1)])]
                       [(KStr ''a'', PInt 2), (KStr ''b'', PInt 3),
                        (KStr ''n'', PDict [(KStr ''y'', PInt 2)])]))
        (KStr ''n'') = Some (PDict [(KStr ''x'', PInt 1), (KStr ''y'', PInt 2)])
   \<and> map_of (snd (merge [(KStr ''a'', PInt 1), (KStr ''n'', PDict [(KStr ''x'', PInt 1)])]
                       [(KStr ''a'', PInt 2), (KStr ''b'', PInt 3),
                        (KStr ''n'', PDict [(KStr ''y'', PInt 2)])]))
        (KStr ''b'') = Some (PInt 3)
   \<and> map_of (snd (merge [(KStr ''a'', PInt 1), (KStr ''n'', PDict [(KStr ''x'', PInt 1)])]
                       [(KStr ''a'', PInt 1), (KStr ''n'', PInt 0),
                        (KStr ''m'', PDict [(KStr ''x'', PInt 1)])]))
        (KStr ''n'') = Some (PDict [(KStr ''x'', PInt 1)])
   \<and> map_of (snd (merge [(KStr ''a'', PInt 1), (KStr ''n'', PDict [(KStr ''x'', PInt 1)])]
                       [(KStr ''a'', PInt 1), (KStr ''n'', PInt 0),
                        (KStr ''m'', PDict [(KStr ''x'', PInt 1)])]))
        (KStr ''m'') = Some (PDict [(KStr ''x'', PInt 1)])"
proof -
  let ?a = "[(KStr ''a'', PInt 1), (KStr ''n'', PDict [(KStr ''x'', PInt 1)])]"
  let ?b = "[(KStr ''a'', PInt 2), (KStr ''b'', PInt 3),
             (KStr ''n'', PDict [(KStr ''y'', PInt 2)])]"
  let ?c = "[(KStr ''a'', PInt 1), (KStr ''n'', PInt 0),
             (KStr ''m'', PDict [(KStr ''x'', PInt 1)])]"
  have h1: "?a \<noteq> []" and h2: "?b \<noteq> []" and h3: "distinct (map fst ?b)" by simp_all
  have g2: "?c \<noteq> []" and g3: "distinct (map fst ?c)" by simp_all
  have g4: "\<forall>k x y. map_of ?a k = Some (PDict x) \<longrightarrow> map_of ?c k \<noteq> Some (PDict y)"
    by (auto split: if_splits)
  have g5: "?a \<notin> set (nested_dicts ?c)" by (simp add: nested_dicts_def)
  from g4 g5 have g6: "distinct (dicts_in (PDict ?a) @ dicts_in (PDict ?c))
         \<or> (\<forall>k x y. map_of ?a k = Some (PDict x) \<longrightarrow> map_of ?c k \<noteq> Some (PDict y))
           \<and> ?a \<notin> set (nested_dicts ?c)"
    by blast
  have "distinct (dicts_in (PDict ?a) @ dicts_in (PDict ?b))" by simp
  then have h4: "distinct (dicts_in (PDict ?a) @ dicts_in (PDict ?b))
         \<or> (\<forall>k x y. map_of ?a k = Some (PDict x) \<longrightarrow> map_of ?b k \<noteq> Some (PDict y))
           \<and> ?a \<notin> set (nested_dicts ?b)"
    by (rule disjI1)
  have n: "snd (merge [(KStr ''x'', PInt 1)] [(KStr ''y'', PInt 2)])
             = [(KStr ''x'', PInt 1), (KStr ''y'', PInt 2)]"
    by (simp add: merge.simps Let_def)
  from merge_nonempty [OF h1 h2 h3 h4] n
  have first: "map fst (snd (merge ?a ?b)) = [KStr ''a'', KStr ''n'', KStr ''b'']
     \<and> map_of (snd (merge ?a ?b)) (KStr ''a'') = Some (PInt 1)
     \<and> map_of (snd (merge ?a ?b)) (KStr ''n'')
           = Some (PDict [(KStr ''x'', PInt 1), (KStr ''y'', PInt 2)])
     \<and> map_of (snd (merge ?a ?b)) (KStr ''b'') = Some (PInt 3)"
    by simp
  from merge_nonempty [OF h1 g2 g3 g6] g4
  have second: "map_of (snd (merge ?a ?c)) (KStr ''n'') = Some (PDict [(KStr ''x'', PInt 1)])
     \<and> map_of (snd (merge ?a ?c)) (KStr ''m'') = Some (PDict [(KStr ''x'', PInt 1)])"
    by simp
  from first second show ?thesis by blast
qed

text \<open>
  What the hypothesis on shared objects excludes. In a file where the mapping \<^verbatim>\<open>{x: 1}\<close>
  carries an anchor under \<^verbatim>\<open>k\<close> in one entry and comes again through an alias under
  \<^verbatim>\<open>n\<close> in the next, the loop calls \<^verbatim>\<open>merge({n: N}, {n: {z: 3}, k: N})\<close> with one
  object \<^verbatim>\<open>N\<close>: the nested write adds \<^verbatim>\<open>z\<close> to it under both names. As values, the
  mapping occurs twice and \<^verbatim>\<open>n\<close> holds a mapping in both arguments. Likewise for
  \<^verbatim>\<open>merge(a, {k: a})\<close>, where the first argument is itself nested in the second, and for
  a mapping that is written to under \<^verbatim>\<open>p\<close> and is also a member of a list.
\<close>

lemma shared_call_excluded:
  "\<not> (distinct (dicts_in (PDict [(KStr ''n'', PDict [(KStr ''x'', PInt 1)])])
                 @ dicts_in (PDict [(KStr ''n'', PDict [(KStr ''z'', PInt 3)]),
                                    (KStr ''k'', PDict [(KStr ''x'', PInt 1)])]))
       \<or> (\<forall>k x y. map_of [(KStr ''n'', PDict [(KStr ''x'', PInt 1)])] k = Some (PDict x) \<longrightarrow>
              map_of [(KStr ''n'', PDict [(KStr ''z'', PInt 3)]),
                      (KStr ''k'', PDict [(KStr ''x'', PInt 1)])] k \<noteq> Some (PDict y))
         \<and> [(KStr ''n'', PDict [(KStr ''x'', PInt 1)])]
             \<notin> set (nested_dicts [(KStr ''n'', PDict [(KStr ''z'', PInt 3)]),
                                   (KStr ''k'', PDict [(KStr ''x'', PInt 1)])]))"
  by simp

lemma own_argument_excluded:
  "\<not> (distinct (dicts_in (PDict [(KStr ''x'', PInt 1)])
                 @ dicts_in (PDict [(KStr ''k'', PDict [(KStr ''x'', PInt 1)])]))
       \<or> (\<forall>k x y. map_of [(KStr ''x'', PInt 1)] k = Some (PDict x) \<longrightarrow>
              map_of [(KStr ''k'', PDict [(KStr ''x'', PInt 1)])] k \<noteq> Some (PDict y))
         \<and> [(KStr ''x'', PInt 1)] \<notin> set (nested_dicts [(KStr ''k'', PDict [(KStr ''x'', PInt 1)])]))"
  by (simp add: nested_dicts_def)

lemma list_member_excluded:
  "\<not> (distinct (dicts_in (PDict [(KStr ''p'', PDict [(KStr ''x'', PInt 1)])])
                 @ dicts_in (PDict [(KStr ''p'', PDict [(KStr ''z'', PInt 3)]),
                                    (KStr ''q'', PList [PDict [(KStr ''x'', PInt 1)]])]))
       \<or> (\<forall>k x y. map_of [(KStr ''p'', PDict [(KStr ''x'', PInt 1)])] k = Some (PDict x) \<longrightarrow>
              map_of [(KStr ''p'', PDict [(KStr ''z'', PInt 3)]),
                      (KStr ''q'', PList [PDict [(KStr ''x'', PInt 1)]])] k \<noteq> Some (PDict y))
         \<and> [(KStr ''p'', PDict [(KStr ''x'', PInt 1)])]
             \<notin> set (nested_dicts [(KStr ''p'', PDict [(KStr ''z'', PInt 3)]),
                                   (KStr ''q'', PList [PDict [(KStr ''x'', PInt 1)]])]))"
  by simp

text \<open>
  Claim C3, as stated, fails: \<^verbatim>\<open>merge({}, {"b": 3})\<close> returns \<^verbatim>\<open>dict(a)\<close>, the empty
  mapping, and not a copy of the non-empty \<^verbatim>\<open>b\<close>.
\<close>

theorem merge_empty_counterexample:
  "snd (merge [] [(KStr ''b'', PInt 3)]) \<noteq> [(KStr ''b'', PInt 3)]"
  by (simp add: merge.simps)

text \<open>
  Claim C3, amended. When at least one of \<^verbatim>\<open>a\<close> and \<^verbatim>\<open>b\<close> is empty, \<^verbatim>\<open>merge(a, b)\<close>
  returns a copy of the first argument \<^verbatim>\<open>a\<close> and writes nothing to it: the entries of
  \<^verbatim>\<open>a\<close> when \<^verbatim>\<open>b\<close> is empty, and the empty mapping when \<^verbatim>\<open>a\<close> is empty, whatever
  \<^verbatim>\<open>b\<close> holds.
\<close>

theorem merge_empty_returns_first:
  "a = [] \<or> b = [] \<Longrightarrow> snd (merge a b) = a \<and> fst (merge a b) = a"
  by (auto simp: merge.simps)

theorem merge_empty_returns_first_witness:
  "snd (merge [] [(KStr ''b'', PInt 3)]) = []
   \<and> snd (merge [(KStr ''a'', PInt 1)] []) = [(KStr ''a'', PInt 1)]"
  using merge_empty_returns_first [of "[]" "[(KStr ''b'', PInt 3)]"]
    merge_empty_returns_first [of "[(KStr ''a'', PInt 1)]" "[]"]
  by simp

text \<open>When \<^verbatim>\<open>merge\<close> leaves \<^verbatim>\<open>a\<close> as it was.\<close>

lemma merge_loop_unchanged:
  "(\<forall>(k, bv) \<in> set b.
       case map_of a k of
         None \<Rightarrow> False
       | Some av \<Rightarrow> (case (av, bv) of (PDict x, PDict y) \<Rightarrow> fst (merge x y) = x | _ \<Rightarrow> True))
   \<Longrightarrow> merge_loop a b = a"
proof (induction b)
  case Nil
  then show ?case by simp
next
  case (Cons p b)
  obtain key bv where p: "p = (key, bv)" by (cases p)
  from Cons.prems p obtain av where av: "map_of a key = Some av"
    by (auto split: option.splits)
  have step: "(case (av, bv) of
               (PDict x, PDict y) \<Rightarrow> AList.update key (PDict (fst (merge x y))) a
             | _ \<Rightarrow> a) = a"
    using Cons.prems p av by (auto split: pyval.splits simp: AList.update_triv)
  have "merge_loop a (p # b) = merge_loop a b"
    using p av step by simp
  with Cons show ?case by simp
qed

lemma merge_loop_changed:
  assumes "distinct (map fst b)" and "merge_loop a b = a" and "(k, bv) \<in> set b"
  shows "case map_of a k of
         None \<Rightarrow> False
       | Some av \<Rightarrow> (case (av, bv) of (PDict x, PDict y) \<Rightarrow> fst (merge x y) = x | _ \<Rightarrow> True)"
proof -
  have "map fst a @ filter (\<lambda>k. k \<notin> set (map fst a)) (map fst b) = map fst a"
    using keys_merge_loop [OF assms(1), of a] assms(2) by simp
  then have "filter (\<lambda>k. k \<notin> set (map fst a)) (map fst b) = []" by simp
  then have "k \<in> set (map fst a)"
    using assms(3) by (force simp: filter_empty_conv)
  then obtain av where av: "map_of a k = Some av"
    by (metis map_of_eq_None_iff not_None_eq set_map)
  have bk: "map_of b k = Some bv" using assms(1,3) by simp
  have "map_of (merge_loop a b) k = Some av" using assms(2) av by simp
  then show ?thesis
    using av bk by (auto simp: map_of_merge_loop [OF assms(1)] split: pyval.splits)
qed

text \<open>
  Claim C10, as stated, fails: \<^verbatim>\<open>merge\<close> is not pure. After
  \<^verbatim>\<open>merge(a, {"b": 3})\<close> with \<^verbatim>\<open>a = {"a": 1}\<close> the object \<^verbatim>\<open>a\<close> holds
  \<^verbatim>\<open>{"a": 1, "b": 3}\<close>: the loop assigns \<^verbatim>\<open>a[key] = b[key]\<close> in the argument itself.
\<close>

theorem merge_in_place_counterexample:
  "fst (merge [(KStr ''a'', PInt 1)] [(KStr ''b'', PInt 3)]) \<noteq> [(KStr ''a'', PInt 1)]"
  by (simp add: merge.simps Let_def)

text \<open>
  Claim C10, amended. \<^verbatim>\<open>merge(a, b)\<close> merges \<^verbatim>\<open>b\<close> into \<^verbatim>\<open>a\<close> in place and returns a
  new mapping with the contents that \<^verbatim>\<open>a\<close> has after the call. The first argument is
  left as it was exactly when one of the two mappings is empty, or \<^verbatim>\<open>a\<close> already has every
  key of \<^verbatim>\<open>b\<close> and, wherever both hold a mapping under the same key, merging those two
  leaves the one of \<^verbatim>\<open>a\<close> as it was.
\<close>

theorem merge_in_place:
  assumes "distinct (map fst b)"
  shows "snd (merge a b) = fst (merge a b)
    \<and> (fst (merge a b) = a \<longleftrightarrow>
         a = [] \<or> b = [] \<or>
         (\<forall>(k, bv) \<in> set b.
            case map_of a k of
              None \<Rightarrow> False
            | Some av \<Rightarrow>
                (case (av, bv) of (PDict x, PDict y) \<Rightarrow> fst (merge x y) = x | _ \<Rightarrow> True)))"
proof (cases "a = [] \<or> b = []")
  case True
  then show ?thesis by (auto simp: merge.simps)
next
  case False
  then have loop: "fst (merge a b) = merge_loop a b"
    by (simp add: fst_merge merge_is_loop)
  show ?thesis
    using False merge_loop_unchanged [of b a] merge_loop_changed [OF assms, of a]
    unfolding loop fst_merge [symmetric]
    by (auto simp: loop)
qed

theorem merge_in_place_witness:
  "fst (merge [(KStr ''a'', PInt 1), (KStr ''b'', PInt 0)] [(KStr ''b'', PInt 3)])
     = [(KStr ''a'', PInt 1), (KStr ''b'', PInt 0)]
   \<and> snd (merge [(KStr ''a'', PInt 1), (KStr ''b'', PInt 0)] [(KStr ''b'', PInt 3)])
     = [(KStr ''a'', PInt 1), (KStr ''b'', PInt 0)]"
proof -
  have d: "distinct (map fst [(KStr ''b'', PInt 3)])" by simp
  from merge_in_place [OF d, of "[(KStr ''a'', PInt 1), (KStr ''b'', PInt 0)]"]
  show ?thesis by simp
qed

subsection \<open>The declared variables of a fact list\<close>

lemma set_facts_nonempty: "set_facts es = Inr fs \<Longrightarrow> f \<in> set fs \<Longrightarrow> f \<noteq> []"
  by (induction es arbitrary: fs)
     (auto split: sum.splits if_splits)

lemma merge_facts_snoc: "merge_facts (fs @ [f]) = snd (merge f (merge_facts fs))"
  by (simp add: merge_facts_def)

lemma map_of_merge:
  assumes "a \<noteq> []" and "distinct (map fst b)"
  shows "map_of (snd (merge a b)) k =
     (case map_of a k of
        None \<Rightarrow> map_of b k
      | Some av \<Rightarrow>
          (case (av, map_of b k) of
             (PDict x, Some (PDict y)) \<Rightarrow> Some (PDict (snd (merge x y)))
           | _ \<Rightarrow> Some av))"
proof (cases "b = []")
  case True
  then show ?thesis by (auto simp: merge.simps split: option.splits pyval.splits)
next
  case False
  with assms(1) have loop: "snd (merge a b) = merge_loop a b" by (simp add: merge_is_loop)
  show ?thesis
    unfolding loop
    by (simp add: map_of_merge_loop [OF assms(2)] fst_merge split: option.splits pyval.splits)
qed

lemma keys_merge:
  assumes "a \<noteq> []" and "distinct (map fst b)"
  shows "map fst (snd (merge a b)) = map fst a @ filter (\<lambda>k. k \<notin> set (map fst a)) (map fst b)"
proof (cases "b = []")
  case True
  then show ?thesis by (simp add: merge.simps)
next
  case False
  with assms(1) have loop: "snd (merge a b) = merge_loop a b" by (simp add: merge_is_loop)
  show ?thesis unfolding loop using assms(2) by (rule keys_merge_loop)
qed

lemma distinct_merge_facts:
  "\<forall>f \<in> set fs. f \<noteq> [] \<and> distinct (map fst f) \<Longrightarrow> distinct (map fst (merge_facts fs))"
proof (induction fs rule: rev_induct)
  case Nil
  then show ?case by (simp add: merge_facts_def)
next
  case (snoc f fs)
  then have d: "distinct (map fst (merge_facts fs))" and f: "f \<noteq> []" "distinct (map fst f)"
    by auto
  show ?case
    unfolding merge_facts_snoc keys_merge [OF f(1) d]
    using d f(2) by (auto simp: distinct_filter)
qed

lemma keys_merge_facts:
  "\<forall>f \<in> set fs. f \<noteq> [] \<and> distinct (map fst f) \<Longrightarrow>
   set (map fst (merge_facts fs)) = (\<Union>f \<in> set fs. set (map fst f))"
proof (induction fs rule: rev_induct)
  case Nil
  then show ?case by (simp add: merge_facts_def)
next
  case (snoc f fs)
  then have ih: "set (map fst (merge_facts fs)) = (\<Union>f \<in> set fs. set (map fst f))"
    and f: "f \<noteq> []" and all: "\<forall>f \<in> set fs. f \<noteq> [] \<and> distinct (map fst f)"
    by auto
  have d: "distinct (map fst (merge_facts fs))" using all by (rule distinct_merge_facts)
  have "set (map fst (merge_facts (fs @ [f]))) = set (map fst f) \<union> set (map fst (merge_facts fs))"
    unfolding merge_facts_snoc keys_merge [OF f d] by auto
  then show ?case using ih by auto
qed

text \<open>
  The last entry that has a key decides its value; the entries before it only matter when
  that value and theirs are both mappings.
\<close>

lemma last_fact_wins:
  assumes "\<forall>f \<in> set fs. f \<noteq> [] \<and> distinct (map fst f)"
    and "i < length fs" and "map_of (fs ! i) k = Some v"
    and "\<forall>j. i < j \<longrightarrow> j < length fs \<longrightarrow> map_of (fs ! j) k = None"
  shows "map_of (merge_facts fs) k =
           (case (v, map_of (merge_facts (take i fs)) k) of
              (PDict x, Some (PDict y)) \<Rightarrow> Some (PDict (snd (merge x y)))
            | _ \<Rightarrow> Some v)"
  using assms
proof (induction fs rule: rev_induct)
  case Nil
  then show ?case by simp
next
  case (snoc f fs)
  then have f: "f \<noteq> []" and all: "\<forall>f \<in> set fs. f \<noteq> [] \<and> distinct (map fst f)"
    by auto
  have d: "distinct (map fst (merge_facts fs))" using all by (rule distinct_merge_facts)
  show ?case
  proof (cases "i = length fs")
    case True
    then have "map_of f k = Some v" using snoc.prems(3) by simp
    then show ?thesis
      unfolding merge_facts_snoc map_of_merge [OF f d] using True by simp
  next
    case False
    then have i: "i < length fs" using snoc.prems(2) by simp
    have "map_of ((fs @ [f]) ! length fs) k = None"
      using snoc.prems(4) i by (metis length_append_singleton lessI)
    then have none: "map_of f k = None" by simp
    have later: "\<forall>j. i < j \<longrightarrow> j < length fs \<longrightarrow> map_of (fs ! j) k = None"
    proof (intro allI impI)
      fix j assume "i < j" "j < length fs"
      then show "map_of (fs ! j) k = None"
        using snoc.prems(4) [rule_format, of j] by (simp add: nth_append)
    qed
    have "map_of (fs ! i) k = Some v" using snoc.prems(3) i by (simp add: nth_append)
    from snoc.IH [OF all i this later] show ?thesis
      unfolding merge_facts_snoc map_of_merge [OF f d] using none i by simp
  qed
qed

text \<open>
  A file whose entries are mappings, each with a mapping under \<^verbatim>\<open>set_fact\<close> or without
  that key: the comprehension does not raise, and its facts are the non-empty
  \<^verbatim>\<open>set_fact\<close> mappings.
\<close>

lemma set_facts_mappings:
  "\<forall>e \<in> set entries. \<exists>m. e = PDict m
      \<and> (\<forall>v. map_of m (KStr ''set_fact'') = Some v \<longrightarrow> (\<exists>f. v = PDict f)) \<Longrightarrow>
   set_facts entries = Inr (fact_mappings entries)"
proof (induction entries)
  case Nil
  then show ?case by (simp add: fact_mappings_def)
next
  case (Cons e entries)
  then obtain m where m: "e = PDict m"
    and v: "\<forall>v. map_of m (KStr ''set_fact'') = Some v \<longrightarrow> (\<exists>f. v = PDict f)"
    by auto
  from Cons have ih: "set_facts entries = Inr (fact_mappings entries)" by simp
  have split: "fact_mappings (e # entries)
      = (case map_of m (KStr ''set_fact'') of
           Some (PDict f) \<Rightarrow> (if f = [] then [] else [f])
         | _ \<Rightarrow> []) @ fact_mappings entries"
    by (simp add: fact_mappings_def m)
  show ?case
  proof (cases "map_of m (KStr ''set_fact'')")
    case None
    then show ?thesis
      unfolding split by (simp add: m ih dict_get_def py_dict_def)
  next
    case (Some v')
    with v obtain f where f: "v' = PDict f" by auto
    with Some show ?thesis
      unfolding split by (simp add: m ih dict_get_def py_dict_def)
  qed
qed

text \<open>A mapping among the collected variables comes from a mapping in one of the facts.\<close>

lemma mapping_from_fact:
  assumes "\<forall>f \<in> set fs. f \<noteq> [] \<and> distinct (map fst f)"
    and "map_of (merge_facts fs) k = Some (PDict y)"
  shows "\<exists>j < length fs. \<exists>y'. map_of (fs ! j) k = Some (PDict y')"
  using assms
proof (induction fs arbitrary: y rule: rev_induct)
  case Nil
  then show ?case by (simp add: merge_facts_def)
next
  case (snoc f fs)
  then have f: "f \<noteq> []" and all: "\<forall>f \<in> set fs. f \<noteq> [] \<and> distinct (map fst f)"
    by auto
  have d: "distinct (map fst (merge_facts fs))" using all by (rule distinct_merge_facts)
  show ?case
  proof (cases "map_of f k")
    case None
    with snoc.prems(2) have "map_of (merge_facts fs) k = Some (PDict y)"
      unfolding merge_facts_snoc map_of_merge [OF f d] by simp
    from snoc.IH [OF all this] obtain j y' where "j < length fs" "map_of (fs ! j) k = Some (PDict y')"
      by auto
    then have "j < length (fs @ [f]) \<and> map_of ((fs @ [f]) ! j) k = Some (PDict y')"
      by (simp add: nth_append)
    then show ?thesis by blast
  next
    case (Some av)
    with snoc.prems(2) obtain x where "av = PDict x"
      unfolding merge_facts_snoc map_of_merge [OF f d]
      by (auto split: pyval.splits option.splits)
    with Some have "map_of ((fs @ [f]) ! length fs) k = Some (PDict x)" by simp
    then show ?thesis by (metis length_append_singleton lessI)
  qed
qed

text \<open>
  Claim C1, as stated, fails. For the file
  \<^verbatim>\<open>[{set_fact: {a: 1}}, {set_fact: {a: 2}}]\<close> the declared variables are
  \<^verbatim>\<open>{a: 2}\<close>: the loop calls \<^verbatim>\<open>merge(fact_vars, definition_file_vars)\<close>, with the
  current entry as the argument whose values are kept. The claim's reading keeps the
  earlier value 1.
\<close>

theorem fact_list_counterexample:
  "definition_file_vars
     (PList [PDict [(KStr ''set_fact'', PDict [(KStr ''a'', PInt 1)])],
             PDict [(KStr ''set_fact'', PDict [(KStr ''a'', PInt 2)])]])
     = Inr [(KStr ''a'', PInt 2)]
   \<and> claimed_vars [[(KStr ''a'', PInt 1)], [(KStr ''a'', PInt 2)]] = [(KStr ''a'', PInt 1)]"
  by (simp add: definition_file_vars_def read_vars_def py_dict_def dict_get_def
      merge_facts_def merge.simps Let_def claimed_vars_def)

text \<open>
  Claim C1, amended. For a definition file parsed as a sequence in which every entry is a
  mapping whose \<^verbatim>\<open>set_fact\<close> value, when it has one, is a mapping, let \<open>facts\<close> be the
  non-empty \<^verbatim>\<open>set_fact\<close> mappings of the entries, in file order. When the facts share no
  object that the merge writes to, the declared variables are the merge of the facts in
  which the later entry wins: their keys are the keys of all the facts, and under each key
  they hold the value of the last entry that has the key; only when that value is a mapping,
  and the entries before it gave a mapping too, the two are merged by the merge rule, the
  later one as its first argument. Shared objects are excluded in one of two ways: no
  mapping occurs twice among the mappings nested in the facts; or no key holds a mapping in
  two facts, so that no call makes a nested write, and then the value under each key is that
  of the last entry that has the key, as it is.
\<close>

theorem fact_list_later_wins:
  assumes "\<forall>e \<in> set entries. \<exists>m. e = PDict m
      \<and> (\<forall>v. map_of m (KStr ''set_fact'') = Some v \<longrightarrow> (\<exists>f. v = PDict f))"
    and "facts = fact_mappings entries"
    and "\<forall>f \<in> set facts. distinct (map fst f)"
    and "distinct (concat (map nested_dicts facts))
         \<or> (\<forall>i j k x y. i < j \<longrightarrow> j < length facts \<longrightarrow>
               map_of (facts ! i) k = Some (PDict x) \<longrightarrow> map_of (facts ! j) k \<noteq> Some (PDict y))"
  shows "definition_file_vars (PList entries) = Inr (merge_facts facts)
    \<and> set (map fst (merge_facts facts)) = (\<Union>f \<in> set facts. set (map fst f))
    \<and> (\<forall>i k v. i < length facts \<longrightarrow> map_of (facts ! i) k = Some v \<longrightarrow>
          (\<forall>j. i < j \<longrightarrow> j < length facts \<longrightarrow> map_of (facts ! j) k = None) \<longrightarrow>
          map_of (merge_facts facts) k =
            (case (v, map_of (merge_facts (take i facts)) k) of
               (PDict x, Some (PDict y)) \<Rightarrow> Some (PDict (snd (merge x y)))
             | _ \<Rightarrow> Some v))
    \<and> ((\<forall>i j k x y. i < j \<longrightarrow> j < length facts \<longrightarrow>
            map_of (facts ! i) k = Some (PDict x) \<longrightarrow> map_of (facts ! j) k \<noteq> Some (PDict y)) \<longrightarrow>
         (\<forall>i k v. i < length facts \<longrightarrow> map_of (facts ! i) k = Some v \<longrightarrow>
            (\<forall>j. i < j \<longrightarrow> j < length facts \<longrightarrow> map_of (facts ! j) k = None) \<longrightarrow>
            map_of (merge_facts facts) k = Some v))"
proof -
  have facts: "set_facts entries = Inr facts"
    unfolding assms(2) using assms(1) by (rule set_facts_mappings)
  have all: "\<forall>f \<in> set facts. f \<noteq> [] \<and> distinct (map fst f)"
    using facts assms(3) set_facts_nonempty by blast
  have run: "definition_file_vars (PList entries) = Inr (merge_facts facts)"
    using facts by (simp add: definition_file_vars_def read_vars_def)
  have plain: "map_of (merge_facts facts) k = Some v"
    if sep: "\<forall>i j k x y. i < j \<longrightarrow> j < length facts \<longrightarrow>
            map_of (facts ! i) k = Some (PDict x) \<longrightarrow> map_of (facts ! j) k \<noteq> Some (PDict y)"
      and i: "i < length facts" and v: "map_of (facts ! i) k = Some v"
      and last: "\<forall>j. i < j \<longrightarrow> j < length facts \<longrightarrow> map_of (facts ! j) k = None"
    for i k v
  proof -
    have earlier: "map_of (merge_facts (take i facts)) k \<noteq> Some (PDict y)" if "v = PDict x" for x y
    proof
      assume "map_of (merge_facts (take i facts)) k = Some (PDict y)"
      moreover have "\<forall>f \<in> set (take i facts). f \<noteq> [] \<and> distinct (map fst f)"
        using all by (meson in_set_takeD)
      ultimately obtain j y' where j: "j < length (take i facts)"
        and "map_of (take i facts ! j) k = Some (PDict y')"
        using mapping_from_fact by blast
      then have "j < i" "map_of (facts ! j) k = Some (PDict y')" by simp_all
      with sep [rule_format, of j i k y' x] i v that show False by simp
    qed
    show ?thesis
    proof (cases "\<exists>x. v = PDict x")
      case True
      then obtain x where x: "v = PDict x" by blast
      from earlier [OF x] have "(case map_of (merge_facts (take i facts)) k of
          Some (PDict y) \<Rightarrow> Some (PDict (snd (merge x y))) | _ \<Rightarrow> Some v) = Some v"
        by (cases "map_of (merge_facts (take i facts)) k") (auto split: pyval.splits)
      with last_fact_wins [OF all i v last] x show ?thesis by simp
    next
      case False
      with last_fact_wins [OF all i v last] show ?thesis
        by (cases v) simp_all
    qed
  qed
  show ?thesis
  proof (intro conjI impI allI)
    show "definition_file_vars (PList entries) = Inr (merge_facts facts)" by (rule run)
    show "set (map fst (merge_facts facts)) = (\<Union>f \<in> set facts. set (map fst f))"
      by (rule keys_merge_facts [OF all])
  next
    fix i k v
    assume "i < length facts" "map_of (facts ! i) k = Some v"
      "\<forall>j. i < j \<longrightarrow> j < length facts \<longrightarrow> map_of (facts ! j) k = None"
    then show "map_of (merge_facts facts) k =
            (case (v, map_of (merge_facts (take i facts)) k) of
               (PDict x, Some (PDict y)) \<Rightarrow> Some (PDict (snd (merge x y)))
             | _ \<Rightarrow> Some v)"
      by (rule last_fact_wins [OF all])
  next
    fix i k v
    assume "\<forall>i j k x y. i < j \<longrightarrow> j < length facts \<longrightarrow>
            map_of (facts ! i) k = Some (PDict x) \<longrightarrow> map_of (facts ! j) k \<noteq> Some (PDict y)"
      "i < length facts" "map_of (facts ! i) k = Some v"
      "\<forall>j. i < j \<longrightarrow> j < length facts \<longrightarrow> map_of (facts ! j) k = None"
    then show "map_of (merge_facts facts) k = Some v" by (rule plain)
  qed
qed

theorem fact_list_later_wins_witness:
  "definition_file_vars
     (PList [PDict [(KStr ''set_fact'',
                     PDict [(KStr ''a'', PInt 1), (KStr ''n'', PDict [(KStr ''x'', PInt 1)]),
                            (KStr ''c'', PInt 5)])],
             PDict [(KStr ''name'', PStr ''no fact'')],
             PDict [(KStr ''set_fact'',
                     PDict [(KStr ''a'', PInt 2), (KStr ''n'', PDict [(KStr ''y'', PInt 2)]),
                            (KStr ''b'', PInt 3)])]])
     = Inr [(KStr ''a'', PInt 2), (KStr ''n'', PDict [(KStr ''y'', PInt 2), (KStr ''x'', PInt 1)]),
            (KStr ''b'', PInt 3), (KStr ''c'', PInt 5)]
   \<and> definition_file_vars
     (PList [PDict [(KStr ''set_fact'', PDict [(KStr ''k'', PDict [(KStr ''x'', PInt 1)])])],
             PDict [(KStr ''set_fact'',
                     PDict [(KStr ''j'', PDict [(KStr ''x'', PInt 1)]), (KStr ''k'', PInt 0)])]])
     = Inr [(KStr ''j'', PDict [(KStr ''x'', PInt 1)]), (KStr ''k'', PInt 0)]"
proof -
  let ?es = "[PDict [(KStr ''set_fact'',
                     PDict [(KStr ''a'', PInt 1), (KStr ''n'', PDict [(KStr ''x'', PInt 1)]),
                            (KStr ''c'', PInt 5)])],
             PDict [(KStr ''name'', PStr ''no fact'')],
             PDict [(KStr ''set_fact'',
                     PDict [(KStr ''a'', PInt 2), (KStr ''n'', PDict [(KStr ''y'', PInt 2)]),
                            (KStr ''b'', PInt 3)])]]"
  let ?fs = "[[(KStr ''a'', PInt 1), (KStr ''n'', PDict [(KStr ''x'', PInt 1)]),
               (KStr ''c'', PInt 5)],
              [(KStr ''a'', PInt 2), (KStr ''n'', PDict [(KStr ''y'', PInt 2)]),
               (KStr ''b'', PInt 3)]]"
  have h1: "\<forall>e \<in> set ?es. \<exists>m. e = PDict m
      \<and> (\<forall>v. map_of m (KStr ''set_fact'') = Some v \<longrightarrow> (\<exists>f. v = PDict f))"
    by simp
  have h2: "?fs = fact_mappings ?es" by (simp add: fact_mappings_def)
  have h3: "\<forall>f \<in> set ?fs. distinct (map fst f)" by simp
  have "distinct (concat (map nested_dicts ?fs))" by (simp add: nested_dicts_def)
  then have h4: "distinct (concat (map nested_dicts ?fs))
         \<or> (\<forall>i j k x y. i < j \<longrightarrow> j < length ?fs \<longrightarrow>
               map_of (?fs ! i) k = Some (PDict x) \<longrightarrow> map_of (?fs ! j) k \<noteq> Some (PDict y))"
    by (rule disjI1)
  have m: "merge_facts ?fs
      = [(KStr ''a'', PInt 2), (KStr ''n'', PDict [(KStr ''y'', PInt 2), (KStr ''x'', PInt 1)]),
         (KStr ''b'', PInt 3), (KStr ''c'', PInt 5)]"
    by (simp add: merge_facts_def merge.simps Let_def)
  from fact_list_later_wins [OF h1 h2 h3 h4] m
  have first: "definition_file_vars (PList ?es)
      = Inr [(KStr ''a'', PInt 2), (KStr ''n'', PDict [(KStr ''y'', PInt 2), (KStr ''x'', PInt 1)]),
             (KStr ''b'', PInt 3), (KStr ''c'', PInt 5)]"
    by simp
  let ?et = "[PDict [(KStr ''set_fact'', PDict [(KStr ''k'', PDict [(KStr ''x'', PInt 1)])])],
             PDict [(KStr ''set_fact'',
                     PDict [(KStr ''j'', PDict [(KStr ''x'', PInt 1)]), (KStr ''k'', PInt 0)])]]"
  let ?ft = "[[(KStr ''k'', PDict [(KStr ''x'', PInt 1)])],
              [(KStr ''j'', PDict [(KStr ''x'', PInt 1)]), (KStr ''k'', PInt 0)]]"
  have g1: "\<forall>e \<in> set ?et. \<exists>m. e = PDict m
      \<and> (\<forall>v. map_of m (KStr ''set_fact'') = Some v \<longrightarrow> (\<exists>f. v = PDict f))"
    by simp
  have g2: "?ft = fact_mappings ?et" by (simp add: fact_mappings_def)
  have g3: "\<forall>f \<in> set ?ft. distinct (map fst f)" by simp
  have "\<forall>i j k x y. i < j \<longrightarrow> j < length ?ft \<longrightarrow>
               map_of (?ft ! i) k = Some (PDict x) \<longrightarrow> map_of (?ft ! j) k \<noteq> Some (PDict y)"
  proof (intro allI impI)
    fix i j :: nat and k x y
    assume "i < j" "j < length ?ft" and x: "map_of (?ft ! i) k = Some (PDict x)"
    then have ij: "i = 0" "j = 1" by auto
    from x have "k = KStr ''k''" unfolding ij by (simp split: if_splits)
    then show "map_of (?ft ! j) k \<noteq> Some (PDict y)" unfolding ij by simp
  qed
  then have g4: "distinct (concat (map nested_dicts ?ft))
         \<or> (\<forall>i j k x y. i < j \<longrightarrow> j < length ?ft \<longrightarrow>
               map_of (?ft ! i) k = Some (PDict x) \<longrightarrow> map_of (?ft ! j) k \<noteq> Some (PDict y))"
    by (rule disjI2)
  have t: "merge_facts ?ft = [(KStr ''j'', PDict [(KStr ''x'', PInt 1)]), (KStr ''k'', PInt 0)]"
    by (simp add: merge_facts_def merge.simps Let_def)
  from fact_list_later_wins [OF g1 g2 g3 g4] t
  have second: "definition_file_vars (PList ?et)
      = Inr [(KStr ''j'', PDict [(KStr ''x'', PInt 1)]), (KStr ''k'', PInt 0)]"
    by simp
  from first second show ?thesis by blast
qed

text \<open>
  The facts of the file with the anchor and the alias,
  \<^verbatim>\<open>[{set_fact: {n: {z: 3}, k: &N {x: 1}}}, {set_fact: {n: *N}}]\<close>, meet neither form of the
  hypothesis: the mapping occurs twice among them, and \<^verbatim>\<open>n\<close> holds a mapping in both.
\<close>

lemma shared_facts_excluded:
  "\<not> (distinct (concat (map nested_dicts
           [[(KStr ''n'', PDict [(KStr ''z'', PInt 3)]), (KStr ''k'', PDict [(KStr ''x'', PInt 1)])],
            [(KStr ''n'', PDict [(KStr ''x'', PInt 1)])]]))
       \<or> (\<forall>i j k x y. i < j \<longrightarrow>
              j < length [[(KStr ''n'', PDict [(KStr ''z'', PInt 3)]),
                           (KStr ''k'', PDict [(KStr ''x'', PInt 1)])],
                          [(KStr ''n'', PDict [(KStr ''x'', PInt 1)])]] \<longrightarrow>
              map_of ([[(KStr ''n'', PDict [(KStr ''z'', PInt 3)]),
                        (KStr ''k'', PDict [(KStr ''x'', PInt 1)])],
                       [(KStr ''n'', PDict [(KStr ''x'', PInt 1)])]] ! i) k = Some (PDict x) \<longrightarrow>
              map_of ([[(KStr ''n'', PDict [(KStr ''z'', PInt 3)]),
                        (KStr ''k'', PDict [(KStr ''x'', PInt 1)])],
                       [(KStr ''n'', PDict [(KStr ''x'', PInt 1)])]] ! j) k \<noteq> Some (PDict y)))"
proof -
  let ?fs = "[[(KStr ''n'', PDict [(KStr ''z'', PInt 3)]), (KStr ''k'', PDict [(KStr ''x'', PInt 1)])],
            [(KStr ''n'', PDict [(KStr ''x'', PInt 1)])]]"
  have twice: "\<not> distinct (concat (map nested_dicts ?fs))"
    by (simp add: nested_dicts_def)
  have both: "(0::nat) < 1 \<and> 1 < length ?fs
      \<and> map_of (?fs ! 0) (KStr ''n'') = Some (PDict [(KStr ''z'', PInt 3)])
      \<and> map_of (?fs ! 1) (KStr ''n'') = Some (PDict [(KStr ''x'', PInt 1)])"
    by simp
  from twice both show ?thesis by blast
qed

subsection \<open>The record of one host\<close>

text \<open>What \<open>generate_host\<close> went through when it yields a record.\<close>

lemma generate_host_record:
  assumes "generate_host env gen r = Inr (Some record)"
  obtains definition_data vars host_data where
    "r \<noteq> []" and "1 < length r" and "2 < length r"
    and "read_yaml_file env (r ! 0) = Inr definition_data"
    and "definition_file_vars definition_data = Inr vars"
    and "classification gen (path_name (path_parent (r ! 0))) (processed_name (r ! 0) (r ! 1))
           = Inr (Some host_data)"
    and "record = connection_fields env (processed_name (r ! 0) (r ! 1)) (r ! 2)
           (snd (merge (base_fields gen (r ! 0) (path_parent (r ! 0))
                          (processed_name (r ! 0) (r ! 1)) (r ! 2) host_data) vars))"
  using assms
  by (auto simp: generate_host_def tuple_item_def Let_def
      split: if_splits sum.splits option.splits)

lemma map_of_dict_set: "map_of (dict_set d k v) k' = (if k' = k then Some v else map_of d k')"
  by (simp add: dict_set_def AList.update_conv')

lemma dict_get_dict_set:
  "dict_get (dict_set d k v) k' dflt = (if k' = k then v else dict_get d k' dflt)"
  by (simp add: dict_get_def map_of_dict_set)

lemma connection_fields_other:
  "k \<noteq> KStr ''ansible_ssh_host'' \<Longrightarrow> k \<noteq> KStr ''ansible_winrm_host'' \<Longrightarrow>
   k \<noteq> KStr ''ansible_host'' \<Longrightarrow>
   map_of (connection_fields env hostname hostname_short d) k = map_of d k"
  by (simp add: connection_fields_def Let_def map_of_dict_set)

lemma connection_fields_qemu:
  "dict_get d (KStr ''system_type'') PNone = PStr ''qemu'' \<Longrightarrow>
   map_of (connection_fields env hostname hostname_short d) (KStr ''ansible_host'')
     = Some (PStr hostname_short)
   \<and> map_of (connection_fields env hostname hostname_short d) (KStr ''ansible_ssh_host'')
     = Some (PStr hostname_short)"
  by (simp add: connection_fields_def Let_def map_of_dict_set dict_get_dict_set)

text \<open>
  Claim C7. When the merged variables of a host hold \<^verbatim>\<open>system_type\<close> equal to
  \<^verbatim>\<open>"qemu"\<close>, the record has \<^verbatim>\<open>ansible_host\<close> and \<^verbatim>\<open>ansible_ssh_host\<close> equal to the
  short host name, whatever \<^verbatim>\<open>ansible_real_host\<close> is. The first part is about the
  connection fields computed from any merged variables; the second is about a yielded
  record, whose \<^verbatim>\<open>system_type\<close> is the one of the merged variables, since the connection
  fields never assign it.
\<close>

theorem qemu_addresses:
  "(dict_get merged (KStr ''system_type'') PNone = PStr ''qemu'' \<longrightarrow>
      map_of (connection_fields env hostname hostname_short merged) (KStr ''ansible_host'')
        = Some (PStr hostname_short)
      \<and> map_of (connection_fields env hostname hostname_short merged) (KStr ''ansible_ssh_host'')
        = Some (PStr hostname_short))
   \<and> (generate_host env gen r = Inr (Some emitted) \<longrightarrow>
      map_of emitted (KStr ''system_type'') = Some (PStr ''qemu'') \<longrightarrow>
      map_of emitted (KStr ''ansible_host'') = Some (PStr (r ! 2))
      \<and> map_of emitted (KStr ''ansible_ssh_host'') = Some (PStr (r ! 2)))"
proof (intro conjI impI)
  assume q: "dict_get merged (KStr ''system_type'') PNone = PStr ''qemu''"
  from connection_fields_qemu [OF q]
  show "map_of (connection_fields env hostname hostname_short merged) (KStr ''ansible_host'')
        = Some (PStr hostname_short)"
    and "map_of (connection_fields env hostname hostname_short merged) (KStr ''ansible_ssh_host'')
        = Some (PStr hostname_short)"
    by simp_all
next
  assume g: "generate_host env gen r = Inr (Some emitted)"
    and s: "map_of emitted (KStr ''system_type'') = Some (PStr ''qemu'')"
  from g obtain d where rec: "emitted = connection_fields env (processed_name (r ! 0) (r ! 1)) (r ! 2) d"
    by (rule generate_host_record)
  from s have "dict_get d (KStr ''system_type'') PNone = PStr ''qemu''"
    unfolding rec by (simp add: connection_fields_other dict_get_def)
  from connection_fields_qemu [OF this]
  show "map_of emitted (KStr ''ansible_host'') = Some (PStr (r ! 2))"
    and "map_of emitted (KStr ''ansible_ssh_host'') = Some (PStr (r ! 2))"
    unfolding rec by simp_all
qed

theorem qemu_addresses_witness:
  "generate_host
     (finite_env [(''site/definitions/vm/lxr3-vm-01.yaml'', ''facts'')]
        [(''facts'', PList [PDict [(KStr ''set_fact'',
             PDict [(KStr ''ansible_real_host'', PStr ''10.0.0.5''),
                    (KStr ''system_type'', PStr ''qemu'')])]])] [])
     \<lparr> site_directory = ''site'', site_definitions_directory = ''site/definitions'',
       environment_domain = ''example.com'', os_class_map = PDict [], sub_group_map = PDict [] \<rparr>
     [''site/definitions/vm/lxr3-vm-01.yaml'', ''lxr3-vm-01.example.com'', ''lxr3-vm-01'']
   = Inr (Some
       [(KStr ''os_classes'', PList []), (KStr ''os_class_names'', PList []),
        (KStr ''sub_groups'', PList []), (KStr ''sub_group_names'', PList []),
        (KStr ''primary_group'', PStr ''vm''), (KStr ''hostname'', PStr ''lxr3-vm-01''),
        (KStr ''fqdn'', PStr ''lxr3-vm-01.example.com''),
        (KStr ''definition_file'', PStr ''site/definitions/vm/lxr3-vm-01.yaml''),
        (KStr ''default_group_path'', PStr ''site/definitions/vm''),
        (KStr ''site_directory'', PStr ''site''),
        (KStr ''environment_domain'', PStr ''example.com''),
        (KStr ''ansible_host'', PStr ''lxr3-vm-01''),
        (KStr ''ansible_real_host'', PStr ''10.0.0.5''),
        (KStr ''system_type'', PStr ''qemu''),
        (KStr ''ansible_ssh_host'', PStr ''lxr3-vm-01'')])"
proof -
  let ?env = "finite_env [(''site/definitions/vm/lxr3-vm-01.yaml'', ''facts'')]
        [(''facts'', PList [PDict [(KStr ''set_fact'',
             PDict [(KStr ''ansible_real_host'', PStr ''10.0.0.5''),
                    (KStr ''system_type'', PStr ''qemu'')])]])] []"
  let ?gen = "\<lparr> site_directory = ''site'', site_definitions_directory = ''site/definitions'',
       environment_domain = ''example.com'', os_class_map = PDict [], sub_group_map = PDict [] \<rparr>"
  let ?r = "[''site/definitions/vm/lxr3-vm-01.yaml'', ''lxr3-vm-01.example.com'', ''lxr3-vm-01'']"
  let ?rec = "[(KStr ''os_classes'', PList []), (KStr ''os_class_names'', PList []),
        (KStr ''sub_groups'', PList []), (KStr ''sub_group_names'', PList []),
        (KStr ''primary_group'', PStr ''vm''), (KStr ''hostname'', PStr ''lxr3-vm-01''),
        (KStr ''fqdn'', PStr ''lxr3-vm-01.example.com''),
        (KStr ''definition_file'', PStr ''site/definitions/vm/lxr3-vm-01.yaml''),
        (KStr ''default_group_path'', PStr ''site/definitions/vm''),
        (KStr ''site_directory'', PStr ''site''),
        (KStr ''environment_domain'', PStr ''example.com''),
        (KStr ''ansible_host'', PStr ''lxr3-vm-01''),
        (KStr ''ansible_real_host'', PStr ''10.0.0.5''),
        (KStr ''system_type'', PStr ''qemu''),
        (KStr ''ansible_ssh_host'', PStr ''lxr3-vm-01'')]"
  have g: "generate_host ?env ?gen ?r = Inr (Some ?rec)"
    by code_simp
  have s: "map_of ?rec (KStr ''system_type'') = Some (PStr ''qemu'')"
    by simp
  from qemu_addresses [where env = ?env and gen = ?gen and r = ?r and emitted = ?rec] g s
  have "map_of ?rec (KStr ''ansible_host'') = Some (PStr (?r ! 2))" by blast
  with g show ?thesis by simp
qed

subsection \<open>Classification lists\<close>

lemma map_err_append:
  "map_err f (xs @ ys) =
     (case map_err f xs of
        Inl err \<Rightarrow> Inl err
      | Inr us \<Rightarrow> (case map_err f ys of Inl err \<Rightarrow> Inl err | Inr vs \<Rightarrow> Inr (us @ vs)))"
  by (induction xs) (auto split: sum.splits)

lemma map_err_nth:
  "map_err f es = Inr ys \<Longrightarrow>
   length ys = length es \<and> (\<forall>i < length es. f (es ! i) = Inr (ys ! i))"
proof (induction es arbitrary: ys)
  case Nil
  then show ?case by simp
next
  case (Cons e es)
  then show ?case
    by (auto split: sum.splits simp: nth_Cons split: nat.splits)
qed

lemma class_entries_paired:
  "class_entries first_key code items = Inr cs \<Longrightarrow>
   class_entries first_value code items = Inr ns \<Longrightarrow>
   \<exists>es. map_err first_key es = Inr cs \<and> map_err first_value es = Inr ns"
proof (induction items arbitrary: cs ns)
  case Nil
  then show ?case by (auto intro: exI [of _ "[]"])
next
  case (Cons item items)
  obtain k v where item: "item = (k, v)" by (cases item)
  from Cons.prems item obtain entries xs ys us vs where
    it: "py_iter v = Inr entries"
    and xs: "(if k = KStr code then map_err first_key entries else Inr []) = Inr xs"
    and us: "(if k = KStr code then map_err first_value entries else Inr []) = Inr us"
    and ys: "class_entries first_key code items = Inr ys"
    and vs: "class_entries first_value code items = Inr vs"
    and cs: "cs = xs @ ys" and ns: "ns = us @ vs"
    by (auto split: sum.splits)
  from Cons.IH [OF ys vs] obtain es where
    es: "map_err first_key es = Inr ys" "map_err first_value es = Inr vs" by blast
  show ?case
  proof (cases "k = KStr code")
    case True
    with xs us es cs ns show ?thesis
      by (intro exI [of _ "entries @ es"]) (simp add: map_err_append)
  next
    case False
    with xs us es cs ns show ?thesis
      by (intro exI [of _ es]) simp
  qed
qed

lemma class_entries_absent:
  "map_of items (KStr code) = None \<Longrightarrow> class_entries sel code items = Inr cs \<Longrightarrow> cs = []"
proof (induction items arbitrary: cs)
  case Nil
  then show ?case by simp
next
  case (Cons item items)
  obtain k v where item: "item = (k, v)" by (cases item)
  with Cons.prems have k: "k \<noteq> KStr code" and rest: "map_of items (KStr code) = None"
    by (auto split: if_splits)
  from Cons.prems(2) item k obtain ys where
    "class_entries sel code items = Inr ys" and "cs = ys"
    by (auto split: sum.splits)
  with Cons.IH [OF rest] show ?case by simp
qed

lemma class_lookup_paired:
  assumes "class_lookup first_key class_map code = Inr cs"
    and "class_lookup first_value class_map code = Inr ns"
  shows "length cs = length ns
    \<and> (\<exists>es. length es = length cs
          \<and> (\<forall>i < length cs. first_key (es ! i) = Inr (cs ! i)
                              \<and> first_value (es ! i) = Inr (ns ! i)))
    \<and> (\<forall>items. class_map = PDict items \<longrightarrow> map_of items (KStr code) = None \<longrightarrow>
          cs = [] \<and> ns = [])"
proof -
  from assms obtain items where m: "class_map = PDict items"
    by (cases class_map) (auto simp: class_lookup_def)
  from assms m have c: "class_entries first_key code items = Inr cs"
    and n: "class_entries first_value code items = Inr ns"
    by (simp_all add: class_lookup_def)
  from class_entries_paired [OF c n] obtain es where
    es: "map_err first_key es = Inr cs" "map_err first_value es = Inr ns" by blast
  from map_err_nth [OF es(1)] map_err_nth [OF es(2)]
  have "length cs = length ns" and "length es = length cs"
    and "\<forall>i < length cs. first_key (es ! i) = Inr (cs ! i) \<and> first_value (es ! i) = Inr (ns ! i)"
    by auto
  moreover have "cs = [] \<and> ns = []" if "map_of items (KStr code) = None"
    using class_entries_absent [OF that c] class_entries_absent [OF that n] by simp
  ultimately show ?thesis using m by blast
qed

lemma merge_keeps_list:
  "map_of a k = Some (PList xs) \<Longrightarrow> map_of (snd (merge a b)) k = Some (PList xs)"
  by (cases "a = [] \<or> b = []")
     (auto simp: merge.simps Let_def merge_loop_keeps)

lemma map_of_base_fields:
  "k \<notin> {KStr ''hostname'', KStr ''fqdn'', KStr ''definition_file'', KStr ''default_group_path'',
         KStr ''site_directory'', KStr ''environment_domain'', KStr ''ansible_host''} \<Longrightarrow>
   map_of (base_fields gen f g h s d) k = map_of d k"
  by (simp add: base_fields_def map_of_dict_set)

lemma classification_named:
  assumes "classification gen primary_group hostname = Inr (Some host_data)"
    and "hostname \<noteq> ''localhost''"
  obtains cs ns gs ms where
    "class_lookup first_key (os_class_map gen) (split_on CHR ''-'' hostname ! 0) = Inr cs"
    "class_lookup first_value (os_class_map gen) (split_on CHR ''-'' hostname ! 0) = Inr ns"
    "class_lookup first_key (sub_group_map gen) (split_on CHR ''-'' hostname ! 1) = Inr gs"
    "class_lookup first_value (sub_group_map gen) (split_on CHR ''-'' hostname ! 1) = Inr ms"
    "map_of host_data (KStr ''os_classes'') = Some (PList cs)"
    "map_of host_data (KStr ''os_class_names'') = Some (PList ns)"
    "map_of host_data (KStr ''sub_groups'') = Some (PList gs)"
    "map_of host_data (KStr ''sub_group_names'') = Some (PList ms)"
proof -
  have len: "length (split_on CHR ''-'' hostname) > 0"
    by (cases hostname) (auto split: list.splits)
  then have two: "length (split_on CHR ''-'' hostname) \<noteq> Suc 0 \<longrightarrow>
      Suc 0 < length (split_on CHR ''-'' hostname)" by arith
  from assms two show ?thesis
    by (auto simp: classification_def Let_def map_of_dict_set
        split: if_splits sum.splits intro!: that)
qed

lemma class_entries_under_code:
  "distinct (map fst items) \<Longrightarrow> class_entries sel code items = Inr cs \<Longrightarrow>
   (case map_of items (KStr code) of
      None \<Rightarrow> cs = []
    | Some v \<Rightarrow> \<exists>es. py_iter v = Inr es \<and> map_err sel es = Inr cs)"
proof (induction items arbitrary: cs)
  case Nil
  then show ?case by simp
next
  case (Cons item items)
  obtain k v where item: "item = (k, v)" by (cases item)
  from Cons.prems item have d: "distinct (map fst items)" and nk: "k \<notin> set (map fst items)"
    by auto
  from Cons.prems(2) item obtain es xs ys where
    it: "py_iter v = Inr es"
    and xs: "(if k = KStr code then map_err sel es else Inr []) = Inr xs"
    and ys: "class_entries sel code items = Inr ys"
    and cs: "cs = xs @ ys"
    by (auto split: sum.splits)
  show ?case
  proof (cases "k = KStr code")
    case True
    with nk have "map_of items (KStr code) = None" by (simp add: map_of_eq_None_iff)
    from class_entries_absent [OF this ys] have "ys = []" .
    with True it xs cs item show ?thesis by simp
  next
    case False
    with Cons.IH [OF d ys] xs cs item show ?thesis by auto
  qed
qed

lemma class_lookup_under_code:
  assumes "class_lookup first_key class_map code = Inr cs"
    and "class_lookup first_value class_map code = Inr ns"
    and "class_map = PDict items" and "distinct (map fst items)"
  shows "case map_of items (KStr code) of
      None \<Rightarrow> cs = [] \<and> ns = []
    | Some v \<Rightarrow> \<exists>es. py_iter v = Inr es \<and> map_err first_key es = Inr cs
                       \<and> map_err first_value es = Inr ns"
  using assms(1,2) class_entries_under_code [OF assms(4), of first_key code cs]
    class_entries_under_code [OF assms(4), of first_value code ns]
  unfolding assms(3) class_lookup_def
  by (auto split: option.splits)

lemma record_keeps_list:
  assumes "map_of host_data k = Some (PList xs)"
    and "k \<notin> {KStr ''hostname'', KStr ''fqdn'', KStr ''definition_file'', KStr ''default_group_path'',
         KStr ''site_directory'', KStr ''environment_domain'', KStr ''ansible_host'',
         KStr ''ansible_ssh_host'', KStr ''ansible_winrm_host''}"
  shows "map_of (connection_fields env hostname hostname_short
           (snd (merge (base_fields gen f g hostname hostname_short host_data) vars))) k
         = Some (PList xs)"
proof -
  have "map_of (base_fields gen f g hostname hostname_short host_data) k = Some (PList xs)"
    using assms by (simp add: map_of_base_fields)
  then have "map_of (snd (merge (base_fields gen f g hostname hostname_short host_data) vars)) k
      = Some (PList xs)" by (rule merge_keeps_list)
  then show ?thesis using assms(2) by (simp add: connection_fields_other)
qed

text \<open>
  Claim C9, as stated, fails for the record of \<^verbatim>\<open>localhost\<close>: that branch assigns
  \<^verbatim>\<open>os_classes\<close> and \<^verbatim>\<open>sub_groups\<close> only. With a definition file that declares nothing
  the record has \<^verbatim>\<open>os_classes = ["local"]\<close> and no \<^verbatim>\<open>os_class_names\<close> at all, and
  likewise \<^verbatim>\<open>sub_groups = ["local"]\<close> and no \<^verbatim>\<open>sub_group_names\<close>.
\<close>

theorem classification_pairs_counterexample:
  "map_sum id
     (map_option (\<lambda>record. (map_of record (KStr ''os_classes''),
                            map_of record (KStr ''os_class_names''),
                            map_of record (KStr ''sub_groups''),
                            map_of record (KStr ''sub_group_names''))))
     (generate_host
        (finite_env [(''site/definitions/ctl/localhost.yaml'', ''facts'')]
           [(''facts'', PList [])] [])
        \<lparr> site_directory = ''site'', site_definitions_directory = ''site/definitions'',
          environment_domain = ''example.com'', os_class_map = PDict [],
          sub_group_map = PDict [] \<rparr>
        [''site/definitions/ctl/localhost.yaml'', ''localhost'', ''localhost''])
   = Inr (Some (Some (PList [PStr ''local'']), None, Some (PList [PStr ''local'']), None))"
  by code_simp

text \<open>
  Claim C9, amended. In every yielded record whose processed name is not
  \<^verbatim>\<open>localhost\<close>, \<^verbatim>\<open>os_classes\<close> and \<^verbatim>\<open>os_class_names\<close> are lists of the same length,
  and so are \<^verbatim>\<open>sub_groups\<close> and \<^verbatim>\<open>sub_group_names\<close>; when the keys of the class map are
  distinct, the two lists are the first keys and the first values of the entries listed
  under the code, entry by entry, and both are empty when the code has no entry. The record
  of \<^verbatim>\<open>localhost\<close> has \<^verbatim>\<open>os_classes = ["local"]\<close> and \<^verbatim>\<open>sub_groups = ["local"]\<close>; the
  generator derives no name lists for it.
\<close>

theorem classification_pairs:
  assumes "generate_host env gen r = Inr (Some record)"
  shows "(processed_name (r ! 0) (r ! 1) \<noteq> ''localhost'' \<longrightarrow>
      (\<exists>cs ns gs ms.
         map_of record (KStr ''os_classes'') = Some (PList cs)
       \<and> map_of record (KStr ''os_class_names'') = Some (PList ns)
       \<and> map_of record (KStr ''sub_groups'') = Some (PList gs)
       \<and> map_of record (KStr ''sub_group_names'') = Some (PList ms)
       \<and> length cs = length ns \<and> length gs = length ms
       \<and> (\<forall>items. os_class_map gen = PDict items \<longrightarrow> distinct (map fst items) \<longrightarrow>
            (case map_of items (KStr (split_on CHR ''-'' (processed_name (r ! 0) (r ! 1)) ! 0)) of
               None \<Rightarrow> cs = [] \<and> ns = []
             | Some v \<Rightarrow> \<exists>es. py_iter v = Inr es \<and> map_err first_key es = Inr cs
                                \<and> map_err first_value es = Inr ns))
       \<and> (\<forall>items. sub_group_map gen = PDict items \<longrightarrow> distinct (map fst items) \<longrightarrow>
            (case map_of items (KStr (split_on CHR ''-'' (processed_name (r ! 0) (r ! 1)) ! 1)) of
               None \<Rightarrow> gs = [] \<and> ms = []
             | Some v \<Rightarrow> \<exists>es. py_iter v = Inr es \<and> map_err first_key es = Inr gs
                                \<and> map_err first_value es = Inr ms))))
    \<and> (processed_name (r ! 0) (r ! 1) = ''localhost'' \<longrightarrow>
         map_of record (KStr ''os_classes'') = Some (PList [PStr ''local''])
       \<and> map_of record (KStr ''sub_groups'') = Some (PList [PStr ''local'']))"
proof -
  let ?h = "processed_name (r ! 0) (r ! 1)"
  from assms obtain vars host_data where
    cl: "classification gen (path_name (path_parent (r ! 0))) ?h = Inr (Some host_data)"
    and rec: "record = connection_fields env ?h (r ! 2)
           (snd (merge (base_fields gen (r ! 0) (path_parent (r ! 0)) ?h (r ! 2) host_data) vars))"
    by (rule generate_host_record)
  have local: "map_of record (KStr ''os_classes'') = Some (PList [PStr ''local''])
       \<and> map_of record (KStr ''sub_groups'') = Some (PList [PStr ''local''])"
    if "?h = ''localhost''"
  proof -
    from cl that have "map_of host_data (KStr ''os_classes'') = Some (PList [PStr ''local''])"
      and "map_of host_data (KStr ''sub_groups'') = Some (PList [PStr ''local''])"
      by (auto simp: classification_def Let_def map_of_dict_set)
    then show ?thesis unfolding rec by (simp add: record_keeps_list)
  qed
  have named: "\<exists>cs ns gs ms.
         map_of record (KStr ''os_classes'') = Some (PList cs)
       \<and> map_of record (KStr ''os_class_names'') = Some (PList ns)
       \<and> map_of record (KStr ''sub_groups'') = Some (PList gs)
       \<and> map_of record (KStr ''sub_group_names'') = Some (PList ms)
       \<and> length cs = length ns \<and> length gs = length ms
       \<and> (\<forall>items. os_class_map gen = PDict items \<longrightarrow> distinct (map fst items) \<longrightarrow>
            (case map_of items (KStr (split_on CHR ''-'' ?h ! 0)) of
               None \<Rightarrow> cs = [] \<and> ns = []
             | Some v \<Rightarrow> \<exists>es. py_iter v = Inr es \<and> map_err first_key es = Inr cs
                                \<and> map_err first_value es = Inr ns))
       \<and> (\<forall>items. sub_group_map gen = PDict items \<longrightarrow> distinct (map fst items) \<longrightarrow>
            (case map_of items (KStr (split_on CHR ''-'' ?h ! 1)) of
               None \<Rightarrow> gs = [] \<and> ms = []
             | Some v \<Rightarrow> \<exists>es. py_iter v = Inr es \<and> map_err first_key es = Inr gs
                                \<and> map_err first_value es = Inr ms))"
    if nl: "?h \<noteq> ''localhost''"
  proof -
    from cl nl obtain cs ns gs ms where
      c: "class_lookup first_key (os_class_map gen) (split_on CHR ''-'' ?h ! 0) = Inr cs"
      and n: "class_lookup first_value (os_class_map gen) (split_on CHR ''-'' ?h ! 0) = Inr ns"
      and g: "class_lookup first_key (sub_group_map gen) (split_on CHR ''-'' ?h ! 1) = Inr gs"
      and m: "class_lookup first_value (sub_group_map gen) (split_on CHR ''-'' ?h ! 1) = Inr ms"
      and hd: "map_of host_data (KStr ''os_classes'') = Some (PList cs)"
        "map_of host_data (KStr ''os_class_names'') = Some (PList ns)"
        "map_of host_data (KStr ''sub_groups'') = Some (PList gs)"
        "map_of host_data (KStr ''sub_group_names'') = Some (PList ms)"
      by (rule classification_named)
    have r1: "map_of record (KStr ''os_classes'') = Some (PList cs)"
      and r2: "map_of record (KStr ''os_class_names'') = Some (PList ns)"
      and r3: "map_of record (KStr ''sub_groups'') = Some (PList gs)"
      and r4: "map_of record (KStr ''sub_group_names'') = Some (PList ms)"
      unfolding rec using hd by (simp_all add: record_keeps_list)
    have l1: "length cs = length ns" using class_lookup_paired [OF c n] by simp
    have l2: "length gs = length ms" using class_lookup_paired [OF g m] by simp
    from r1 r2 r3 r4 l1 l2 class_lookup_under_code [OF c n] class_lookup_under_code [OF g m]
    show ?thesis by blast
  qed
  from local named show ?thesis by blast
qed

theorem classification_pairs_witness:
  "processed_name ''site/definitions/pi/lxr3-dck-01.yaml'' ''lxr3-dck-01.example.com'' \<noteq> ''localhost''
   \<and> map_sum id
     (map_option (\<lambda>record. (map_of record (KStr ''os_classes''),
                            map_of record (KStr ''os_class_names''),
                            map_of record (KStr ''sub_groups''),
                            map_of record (KStr ''sub_group_names''))))
     (generate_host
        (finite_env [(''site/definitions/pi/lxr3-dck-01.yaml'', ''facts'')]
           [(''facts'', PList [])] [])
        \<lparr> site_directory = ''site'', site_definitions_directory = ''site/definitions'',
          environment_domain = ''example.com'',
          os_class_map = PDict [(KStr ''lxr3'',
             PList [PDict [(KStr ''lxr3'', PStr ''Linux Raspberry PI Model 3'')]])],
          sub_group_map = PDict [(KStr ''dck'',
             PList [PDict [(KStr ''app'', PStr ''Application Server'')],
                    PDict [(KStr ''dck'', PStr ''Docker Microservices Host'')]])] \<rparr>
        [''site/definitions/pi/lxr3-dck-01.yaml'', ''lxr3-dck-01.example.com'', ''lxr3-dck-01''])
   = Inr (Some (Some (PList [PStr ''lxr3'']),
                Some (PList [PStr ''Linux Raspberry PI Model 3'']),
                Some (PList [PStr ''app'', PStr ''dck'']),
                Some (PList [PStr ''Application Server'', PStr ''Docker Microservices Host''])))"
proof -
  let ?env = "finite_env [(''site/definitions/pi/lxr3-dck-01.yaml'', ''facts'')]
           [(''facts'', PList [])] []"
  let ?gen = "\<lparr> site_directory = ''site'', site_definitions_directory = ''site/definitions'',
          environment_domain = ''example.com'',
          os_class_map = PDict [(KStr ''lxr3'',
             PList [PDict [(KStr ''lxr3'', PStr ''Linux Raspberry PI Model 3'')]])],
          sub_group_map = PDict [(KStr ''dck'',
             PList [PDict [(KStr ''app'', PStr ''Application Server'')],
                    PDict [(KStr ''dck'', PStr ''Docker Microservices Host'')]])] \<rparr>"
  let ?r = "[''site/definitions/pi/lxr3-dck-01.yaml'', ''lxr3-dck-01.example.com'', ''lxr3-dck-01'']"
  have n: "processed_name (?r ! 0) (?r ! 1) \<noteq> ''localhost''" by code_simp
  let ?rec = "[(KStr ''os_classes'', PList [PStr ''lxr3'']),
        (KStr ''os_class_names'', PList [PStr ''Linux Raspberry PI Model 3'']),
        (KStr ''sub_groups'', PList [PStr ''app'', PStr ''dck'']),
        (KStr ''sub_group_names'',
         PList [PStr ''Application Server'', PStr ''Docker Microservices Host'']),
        (KStr ''primary_group'', PStr ''pi''), (KStr ''hostname'', PStr ''lxr3-dck-01''),
        (KStr ''fqdn'', PStr ''lxr3-dck-01.example.com''),
        (KStr ''definition_file'', PStr ''site/definitions/pi/lxr3-dck-01.yaml''),
        (KStr ''default_group_path'', PStr ''site/definitions/pi''),
        (KStr ''site_directory'', PStr ''site''),
        (KStr ''environment_domain'', PStr ''example.com''),
        (KStr ''ansible_host'', PStr ''lxr3-dck-01.example.com''),
        (KStr ''ansible_ssh_host'', PStr ''lxr3-dck-01.example.com''),
        (KStr ''ansible_winrm_host'', PStr ''lxr3-dck-01.example.com'')]"
  have g: "generate_host ?env ?gen ?r = Inr (Some ?rec)"
    by code_simp
  from classification_pairs [OF g] n
  have "\<exists>cs ns. map_of ?rec (KStr ''os_classes'') = Some (PList cs)
       \<and> map_of ?rec (KStr ''os_class_names'') = Some (PList ns) \<and> length cs = length ns"
    by blast
  with g n show ?thesis by simp
qed

subsection \<open>Hosts that cannot be classified\<close>

lemma split_on_single: "c \<notin> set s \<Longrightarrow> split_on c s = [s]"
  by (induction s) auto

lemma host_records_skip:
  "generate_host env gen r = Inr None \<Longrightarrow>
   host_records env gen (before @ r # rest) = host_records env gen (before @ rest)"
  by (induction before) (auto split: sum.splits option.splits)

lemma dotted_not_localhost: "short @ ''.'' @ domain \<noteq> ''localhost''"
proof
  assume eq: "short @ ''.'' @ domain = ''localhost''"
  have "CHR ''.'' \<in> set (short @ ''.'' @ domain)" by simp
  then have "CHR ''.'' \<in> set ''localhost''" unfolding eq .
  then show False by simp
qed

lemma site_file_shape:
  assumes "r \<in> set (fst (site_file gen dir name))"
  shows "r = [path_join dir name, ''localhost'', ''localhost'']
       \<or> (\<exists>short. r = [path_join dir name, short @ ''.'' @ environment_domain gen, short])"
proof (cases "synthetic_hostname_pattern name")
  case None
  with assms show ?thesis
    by (cases "path_stem name = ''localhost''") (simp_all add: site_file_def Let_def)
next
  case (Some m)
  show ?thesis
  proof (cases "expand_host m")
    case (Inl err)
    with Some assms show ?thesis by (simp add: site_file_def)
  next
    case (Inr ehs)
    with Some assms show ?thesis by (auto simp: site_file_def)
  qed
qed

lemma unclassified_skipped:
  assumes "CHR ''-'' \<notin> set fqdn" and "fqdn \<noteq> ''localhost''" and "CHR ''@'' \<notin> set path"
  shows "generate_host env gen [path, fqdn, short] = Inr None
       \<or> (\<exists>err. generate_host env gen [path, fqdn, short] = Inl err)"
proof -
  have p: "processed_name path fqdn = fqdn"
    using assms(3) by (simp add: processed_name_def split_on_single)
  have c: "classification gen g fqdn = Inr None" for g
    using assms(1,2) by (simp add: classification_def split_on_single)
  show ?thesis
  proof (cases "read_yaml_file env path")
    case (Inl err)
    then show ?thesis by (simp add: generate_host_def)
  next
    case (Inr data)
    show ?thesis
    proof (cases "definition_file_vars data")
      case (Inl err)
      with Inr show ?thesis by (simp add: generate_host_def)
    next
      case vars: (Inr vars)
      with Inr show ?thesis by (simp add: generate_host_def tuple_item_def p c)
    qed
  qed
qed

text \<open>
  Claim C8, as stated, fails: the name that is split on \<^verbatim>\<open>-\<close> is the fully qualified
  one, which ends with the environment domain. With the domain
  \<^verbatim>\<open>my-site.example\<close> the stem \<^verbatim>\<open>standalone\<close> gives
  \<^verbatim>\<open>standalone.my-site.example\<close>, which has two parts; the host gets a record and is in
  \<^verbatim>\<open>all.hosts\<close>.
\<close>

theorem unclassified_host_counterexample:
  "map_sum id all_hosts
     (generate_inventory
        (finite_env [(''site/definitions/misc/standalone.yaml'', ''facts'')]
           [(''facts'', PList [])]
           [((''site/definitions'', ''*''), [''misc'']),
            ((''site/definitions/misc'', ''*.yaml''), [''standalone.yaml''])])
        \<lparr> site_directory = ''site'', site_definitions_directory = ''site/definitions'',
          environment_domain = ''my-site.example'', os_class_map = PDict [],
          sub_group_map = PDict [] \<rparr>
        [] [])
   = Inr [PStr ''standalone'']"
  by code_simp

text \<open>
  Claim C8, amended. A walked host whose short name has no \<^verbatim>\<open>-\<close> and is not
  \<^verbatim>\<open>localhost\<close> yields no record, when the environment domain has no \<^verbatim>\<open>-\<close> either
  and the path of the definition file has no \<^verbatim>\<open>@\<close>: its turn of the loop ends in
  \<^verbatim>\<open>continue\<close> (or in an exception of reading the file), the generator yields nothing
  for it, and the records of the other hosts are those of the walk without it.
\<close>

theorem unclassified_host_skipped:
  assumes "r \<in> set (fst (site_file gen dir name))"
    and "r ! 2 \<noteq> ''localhost''"
    and "CHR ''-'' \<notin> set (r ! 2)"
    and "CHR ''-'' \<notin> set (environment_domain gen)"
    and "CHR ''@'' \<notin> set (path_join dir name)"
  shows "(\<forall>record. generate_host env gen r \<noteq> Inr (Some record))
    \<and> fst (generate_host_data env gen ([r], None)) = []
    \<and> (generate_host env gen r = Inr None \<longrightarrow>
         host_records env gen (before @ r # rest) = host_records env gen (before @ rest))"
proof -
  from site_file_shape [OF assms(1)] assms(2) obtain short where
    r: "r = [path_join dir name, short @ ''.'' @ environment_domain gen, short]"
    by auto
  have nodash: "CHR ''-'' \<notin> set (short @ ''.'' @ environment_domain gen)"
    using assms(3,4) r by simp
  from unclassified_skipped [OF nodash dotted_not_localhost assms(5), of env gen short]
  have skip: "generate_host env gen r = Inr None \<or> (\<exists>err. generate_host env gen r = Inl err)"
    unfolding r .
  then have none: "\<forall>record. generate_host env gen r \<noteq> Inr (Some record)" by auto
  from skip have empty: "fst (generate_host_data env gen ([r], None)) = []"
    by (auto simp: generate_host_data_def stream_append_def)
  from none empty host_records_skip show ?thesis by blast
qed

theorem unclassified_host_skipped_witness:
  "[''site/definitions/misc/standalone.yaml'', ''standalone.example.com'', ''standalone'']
     \<in> set (fst (site_file
        \<lparr> site_directory = ''site'', site_definitions_directory = ''site/definitions'',
          environment_domain = ''example.com'', os_class_map = PDict [],
          sub_group_map = PDict [] \<rparr> ''site/definitions/misc'' ''standalone.yaml''))
   \<and> fst (generate_host_data
        (finite_env [(''site/definitions/misc/standalone.yaml'', ''facts'')]
           [(''facts'', PList [])] [])
        \<lparr> site_directory = ''site'', site_definitions_directory = ''site/definitions'',
          environment_domain = ''example.com'', os_class_map = PDict [],
          sub_group_map = PDict [] \<rparr>
        ([[''site/definitions/misc/standalone.yaml'', ''standalone.example.com'', ''standalone'']],
         None)) = []"
proof -
  let ?gen = "\<lparr> site_directory = ''site'', site_definitions_directory = ''site/definitions'',
          environment_domain = ''example.com'', os_class_map = PDict [],
          sub_group_map = PDict [] \<rparr>"
  let ?r = "[''site/definitions/misc/standalone.yaml'', ''standalone.example.com'', ''standalone'']"
  have h1: "?r \<in> set (fst (site_file ?gen ''site/definitions/misc'' ''standalone.yaml''))"
    by code_simp
  have h2: "?r ! 2 \<noteq> ''localhost''" by simp
  have h3: "CHR ''-'' \<notin> set (?r ! 2)" by simp
  have h4: "CHR ''-'' \<notin> set (environment_domain ?gen)" by simp
  have h5: "CHR ''@'' \<notin> set (path_join ''site/definitions/misc'' ''standalone.yaml'')"
    by (simp add: path_join_def)
  from unclassified_host_skipped [OF h1 h2 h3 h4 h5] h1 show ?thesis by blast
qed

subsection \<open>Loading the classification maps\<close>

text \<open>
  Claim C4, as stated, fails: a non-empty string that does not name an existing file takes
  the last \<^verbatim>\<open>else\<close> branch, \<^verbatim>\<open>self.os_class_map = {}\<close>. The generator is constructed,
  with an empty classification map.
\<close>

theorem class_map_missing_file_counterexample:
  "init (finite_env [] [] []) ''site'' ''example.com'' (PStr ''maps/os_class_map.yaml'') (PStr [])
     = Inr \<lparr> site_directory = ''site'', site_definitions_directory = ''site/definitions'',
             environment_domain = ''example.com'', os_class_map = PDict [],
             sub_group_map = PDict [] \<rparr>"
  by (simp add: init_def class_map_option_def finite_env_def path_join_def)

text \<open>
  Claim C4, amended. When the configuration value of a classification map is a non-empty
  string, then: if it names no existing file, the map is empty and nothing is raised; if it
  names an existing file that cannot be read or whose text is malformed YAML, the exception
  of reading it leaves \<^verbatim>\<open>__init__\<close> and no generator is constructed, for either of the
  two maps.
\<close>

theorem class_map_load:
  assumes "p \<noteq> []"
  shows "(\<not> is_file env p \<longrightarrow> class_map_option env (PStr p) = Inr (PDict []))
    \<and> (is_file env p \<longrightarrow> read_yaml_file env p = Inl err \<longrightarrow>
          init env site_dir domain (PStr p) sub_group_map_arg = Inl err
        \<and> (\<exists>e. init env site_dir domain os_class_map_arg (PStr p) = Inl e))"
proof (intro conjI impI)
  assume "\<not> is_file env p"
  with assms show "class_map_option env (PStr p) = Inr (PDict [])"
    by (simp add: class_map_option_def)
next
  assume f: "is_file env p" and e: "read_yaml_file env p = Inl err"
  from assms f e have c: "class_map_option env (PStr p) = Inl err"
    by (simp add: class_map_option_def)
  then show "init env site_dir domain (PStr p) sub_group_map_arg = Inl err"
    by (simp add: init_def)
  from c show "\<exists>e. init env site_dir domain os_class_map_arg (PStr p) = Inl e"
    by (cases "class_map_option env os_class_map_arg") (simp_all add: init_def)
qed

theorem class_map_load_witness:
  "init (finite_env [(''maps/os.yaml'', ''lxr3: [unclosed'')] [] []) ''site'' ''example.com''
     (PStr ''maps/os.yaml'') (PStr []) = Inl YAMLError
   \<and> class_map_option (finite_env [(''maps/os.yaml'', ''lxr3: [unclosed'')] [] [])
       (PStr ''maps/none.yaml'') = Inr (PDict [])"
proof -
  let ?env = "finite_env [(''maps/os.yaml'', ''lxr3: [unclosed'')] [] []"
  have h1: "''maps/os.yaml'' \<noteq> []" and h2: "''maps/none.yaml'' \<noteq> []" by simp_all
  have f: "is_file ?env ''maps/os.yaml''" and n: "\<not> is_file ?env ''maps/none.yaml''"
    by (simp_all add: finite_env_def)
  have e: "read_yaml_file ?env ''maps/os.yaml'' = Inl YAMLError"
    by (simp add: read_yaml_file_def read_yaml_def finite_env_def)
  from class_map_load [OF h1, where env = ?env and err = YAMLError and site_dir = "''site''"
      and domain = "''example.com''" and sub_group_map_arg = "PStr []"] f e
  have a: "init ?env ''site'' ''example.com'' (PStr ''maps/os.yaml'') (PStr []) = Inl YAMLError"
    by blast
  from class_map_load [OF h2, where env = ?env] n
  have b: "class_map_option ?env (PStr ''maps/none.yaml'') = Inr (PDict [])"
    by blast
  from a b show ?thesis by blast
qed

subsection \<open>Errors of a definition file\<close>

lemma py_dict_scalar:
  "v = PNone \<or> (\<exists>b. v = PBool b) \<or> (\<exists>i. v = PInt i) \<Longrightarrow> py_dict v = Inl TypeError"
  by (auto simp: py_dict_def)

lemma set_facts_type_error:
  assumes "\<forall>f \<in> set pre. \<exists>d. f = PDict d \<and>
             (case map_of d (KStr ''set_fact'') of None \<Rightarrow> True | Some m \<Rightarrow> (\<exists>x. m = PDict x))"
    and "map_of entry (KStr ''set_fact'') = Some v"
    and "v = PNone \<or> (\<exists>b. v = PBool b) \<or> (\<exists>i. v = PInt i)"
  shows "set_facts (pre @ PDict entry # post) = Inl TypeError"
  using assms(1)
proof (induction pre)
  case Nil
  show ?case using assms(2) py_dict_scalar [OF assms(3)] by (simp add: dict_get_def)
next
  case (Cons f pre)
  then obtain d where f: "f = PDict d"
    and m: "case map_of d (KStr ''set_fact'') of None \<Rightarrow> True | Some m \<Rightarrow> (\<exists>x. m = PDict x)"
    by auto
  from m obtain x where "py_dict (dict_get d (KStr ''set_fact'') (PDict [])) = Inr x"
    by (auto simp: dict_get_def py_dict_def split: option.splits)
  with Cons f show ?case by simp
qed

lemma generate_host_same_vars:
  assumes "read_yaml_file env (r ! 0) = Inr data" and "read_yaml_file env' (r ! 0) = Inr data'"
    and "definition_file_vars data = definition_file_vars data'" and "py_str env' = py_str env"
  shows "generate_host env gen r = generate_host env' gen r"
proof -
  have fv: "format_value env' = format_value env"
    unfolding format_value_def assms(4) ..
  have "connection_fields env' h s d = connection_fields env h s d" for h s d
    unfolding connection_fields_def fv ..
  then have cf: "connection_fields env' = connection_fields env"
    by (intro ext)
  show ?thesis
    unfolding generate_host_def cf by (simp add: Let_def assms(1,2,3))
qed

lemma host_records_error:
  "r \<in> set rs \<Longrightarrow> generate_host env gen r = Inl err \<Longrightarrow>
   \<exists>e. snd (host_records env gen rs) = Some e"
  by (induction rs) (auto split: sum.splits option.splits)

lemma generate_inventory_aborts:
  assumes "r \<in> set (fst (traverse_site env gen (site_definitions_directory gen)))"
    and "generate_host env gen r = Inl err"
  shows "\<exists>e. generate_inventory env gen [] [] = Inl e"
proof -
  let ?inv = "traverse_site env gen (site_definitions_directory gen)"
  from host_records_error [OF assms] obtain e where
    "snd (host_records env gen (fst ?inv)) = Some e" by blast
  then have "snd (generate_host_data env gen ?inv) = Some e"
    by (simp add: generate_host_data_def stream_append_def)
  then show ?thesis
    by (simp add: generate_inventory_def Let_def split: sum.splits)
qed

text \<open>
  Claim C5, as stated, fails. The definition file is read and parsed before the
  \<^verbatim>\<open>try\<close> statement, and the statement catches \<^verbatim>\<open>TypeError\<close> only. In a site of two
  hosts whose first definition file is malformed YAML, or is a mapping without the key 0,
  or is a sequence whose entries are strings, the exception leaves the generator and the
  whole run ends with it; the second host is never processed.
\<close>

theorem definition_file_errors_counterexample:
  "generate_inventory
     (finite_env [(''site/definitions/web/lxr3-web-01.yaml'', ''vars: [unclosed''),
                  (''site/definitions/web/lxr3-web-02.yaml'', ''facts'')]
        [(''facts'', PList [])]
        [((''site/definitions'', ''*''), [''web'']),
         ((''site/definitions/web'', ''*.yaml''), [''lxr3-web-01.yaml'', ''lxr3-web-02.yaml''])])
     \<lparr> site_directory = ''site'', site_definitions_directory = ''site/definitions'',
       environment_domain = ''example.com'', os_class_map = PDict [], sub_group_map = PDict [] \<rparr>
     [] [] = Inl YAMLError
   \<and> generate_inventory
     (finite_env [(''site/definitions/web/lxr3-web-01.yaml'', ''mapping''),
                  (''site/definitions/web/lxr3-web-02.yaml'', ''facts'')]
        [(''mapping'', PDict [(KStr ''vars'', PDict [(KStr ''a'', PInt 1)])]),
         (''facts'', PList [])]
        [((''site/definitions'', ''*''), [''web'']),
         ((''site/definitions/web'', ''*.yaml''), [''lxr3-web-01.yaml'', ''lxr3-web-02.yaml''])])
     \<lparr> site_directory = ''site'', site_definitions_directory = ''site/definitions'',
       environment_domain = ''example.com'', os_class_map = PDict [], sub_group_map = PDict [] \<rparr>
     [] [] = Inl KeyError
   \<and> generate_inventory
     (finite_env [(''site/definitions/web/lxr3-web-01.yaml'', ''strings''),
                  (''site/definitions/web/lxr3-web-02.yaml'', ''facts'')]
        [(''strings'', PList [PStr ''set_fact'']),
         (''facts'', PList [])]
        [((''site/definitions'', ''*''), [''web'']),
         ((''site/definitions/web'', ''*.yaml''), [''lxr3-web-01.yaml'', ''lxr3-web-02.yaml''])])
     \<lparr> site_directory = ''site'', site_definitions_directory = ''site/definitions'',
       environment_domain = ''example.com'', os_class_map = PDict [], sub_group_map = PDict [] \<rparr>
     [] [] = Inl AttributeError"
  by code_simp

text \<open>
  Claim C5, amended. A definition file that is read and parsed, and in which the
  \<^verbatim>\<open>vars\<close> value under the key 0 of a mapping, or the \<^verbatim>\<open>set_fact\<close> value of an
  entry of a sequence (the entries before it being mappings whose \<^verbatim>\<open>set_fact\<close>, if any,
  is a mapping), is null, a Boolean or a number, raises \<^verbatim>\<open>TypeError\<close> inside the
  \<^verbatim>\<open>try\<close> statement: the host has no declared variables, and its turn of the loop goes on
  as for a file without entries. A definition file that cannot be read or is malformed YAML
  is not caught: the run ends with an exception.
\<close>

theorem definition_file_errors:
  "((v = PNone \<or> (\<exists>b. v = PBool b) \<or> (\<exists>i. v = PInt i)) \<longrightarrow>
      (map_of d (KInt 0) = Some (PDict entry) \<longrightarrow> map_of entry (KStr ''vars'') = Some v \<longrightarrow>
         definition_file_vars (PDict d) = Inr [])
    \<and> ((\<forall>f \<in> set pre. \<exists>m. f = PDict m \<and>
             (case map_of m (KStr ''set_fact'') of None \<Rightarrow> True | Some x \<Rightarrow> (\<exists>y. x = PDict y))) \<longrightarrow>
         map_of entry (KStr ''set_fact'') = Some v \<longrightarrow>
         definition_file_vars (PList (pre @ PDict entry # post)) = Inr []))
   \<and> (read_file env (r ! 0) = Inr text \<longrightarrow> yaml_load env text = Inr definition_data \<longrightarrow>
        definition_file_vars definition_data = Inr [] \<longrightarrow>
        generate_host env gen r
          = generate_host (env \<lparr> yaml_load := \<lambda>text. Inr (PList []) \<rparr>) gen r)
   \<and> (r \<in> set (fst (traverse_site env gen (site_definitions_directory gen))) \<longrightarrow>
        r \<noteq> [] \<longrightarrow> read_yaml_file env (r ! 0) = Inl err \<longrightarrow>
        (\<exists>e. generate_inventory env gen [] [] = Inl e))"
proof (intro conjI impI)
  assume v: "v = PNone \<or> (\<exists>b. v = PBool b) \<or> (\<exists>i. v = PInt i)"
    and "map_of d (KInt 0) = Some (PDict entry)" and "map_of entry (KStr ''vars'') = Some v"
  then show "definition_file_vars (PDict d) = Inr []"
    using py_dict_scalar [OF v]
    by (simp add: definition_file_vars_def read_vars_def dict_get_def)
next
  assume v: "v = PNone \<or> (\<exists>b. v = PBool b) \<or> (\<exists>i. v = PInt i)"
    and pre: "\<forall>f \<in> set pre. \<exists>m. f = PDict m \<and>
             (case map_of m (KStr ''set_fact'') of None \<Rightarrow> True | Some x \<Rightarrow> (\<exists>y. x = PDict y))"
    and e: "map_of entry (KStr ''set_fact'') = Some v"
  from set_facts_type_error [OF pre e v, of post]
  show "definition_file_vars (PList (pre @ PDict entry # post)) = Inr []"
    by (simp add: definition_file_vars_def read_vars_def)
next
  assume t: "read_file env (r ! 0) = Inr text" and y: "yaml_load env text = Inr definition_data"
    and n: "definition_file_vars definition_data = Inr []"
  let ?env' = "env \<lparr> yaml_load := \<lambda>text. Inr (PList []) \<rparr>"
  have a: "read_yaml_file env (r ! 0) = Inr definition_data"
    using t y by (simp add: read_yaml_file_def read_yaml_def)
  have b: "read_yaml_file ?env' (r ! 0) = Inr (PList [])"
    using t by (simp add: read_yaml_file_def read_yaml_def)
  have c: "definition_file_vars definition_data = definition_file_vars (PList [])"
    using n by (simp add: definition_file_vars_def read_vars_def merge_facts_def)
  have s: "py_str ?env' = py_str env" by simp
  from generate_host_same_vars [OF a b c s]
  show "generate_host env gen r = generate_host ?env' gen r" .
next
  assume w: "r \<in> set (fst (traverse_site env gen (site_definitions_directory gen)))"
    and ne: "r \<noteq> []" and e: "read_yaml_file env (r ! 0) = Inl err"
  from ne e have "generate_host env gen r = Inl err"
    by (simp add: generate_host_def)
  with w show "\<exists>e. generate_inventory env gen [] [] = Inl e"
    by (rule generate_inventory_aborts)
qed

theorem definition_file_errors_witness:
  "definition_file_vars (PDict [(KInt 0, PDict [(KStr ''vars'', PNone)])]) = Inr []
   \<and> definition_file_vars
        (PList [PDict [(KStr ''set_fact'', PDict [(KStr ''a'', PInt 1)])],
                PDict [(KStr ''set_fact'', PInt 7)]]) = Inr []"
proof -
  have v1: "PNone = PNone \<or> (\<exists>b. PNone = PBool b) \<or> (\<exists>i. PNone = PInt i)" by simp
  have v2: "PInt 7 = PNone \<or> (\<exists>b. PInt 7 = PBool b) \<or> (\<exists>i. PInt 7 = PInt i)" by simp
  have pre: "\<forall>f \<in> set [PDict [(KStr ''set_fact'', PDict [(KStr ''a'', PInt 1)])]]. \<exists>m. f = PDict m \<and>
             (case map_of m (KStr ''set_fact'') of None \<Rightarrow> True | Some x \<Rightarrow> (\<exists>y. x = PDict y))"
    by simp
  from definition_file_errors [where v = PNone and d = "[(KInt 0, PDict [(KStr ''vars'', PNone)])]"
      and entry = "[(KStr ''vars'', PNone)]"] v1
  have a: "definition_file_vars (PDict [(KInt 0, PDict [(KStr ''vars'', PNone)])]) = Inr []"
    by simp
  from definition_file_errors [where v = "PInt 7"
      and pre = "[PDict [(KStr ''set_fact'', PDict [(KStr ''a'', PInt 1)])]]"
      and entry = "[(KStr ''set_fact'', PInt 7)]" and post = "[]"] v2 pre
  have b: "definition_file_vars
        (PList [PDict [(KStr ''set_fact'', PDict [(KStr ''a'', PInt 1)])],
                PDict [(KStr ''set_fact'', PInt 7)]]) = Inr []"
    by simp
  from a b show ?thesis by blast
qed

subsection \<open>Synthetic host names\<close>

text \<open>
  The backtracking of a greedy repetition: it ends at the longest split after which the
  rest of the pattern matches.
\<close>

lemma greedy_const: "(\<And>a r. k a r = Some x) \<Longrightarrow> greedy cls acc s k = Some x"
  by (induction s arbitrary: acc) auto

lemma greedy_no_longer:
  "(\<And>n. 0 < n \<Longrightarrow> n \<le> length s \<Longrightarrow> k (acc @ take n s) (drop n s) = None) \<Longrightarrow>
   greedy cls acc s k = k acc s"
proof (induction s arbitrary: acc)
  case Nil
  then show ?case by simp
next
  case (Cons c cs)
  have one: "k (acc @ [c]) cs = None"
    using Cons.prems [of 1] by simp
  have "k ((acc @ [c]) @ take n cs) (drop n cs) = None" if "0 < n" "n \<le> length cs" for n
    using Cons.prems [of "Suc n"] that by simp
  then have "greedy cls (acc @ [c]) cs k = k (acc @ [c]) cs"
    by (rule Cons.IH)
  with one show ?case by simp
qed

lemma greedy_prefix:
  "\<forall>c \<in> set pre. cls c \<Longrightarrow> greedy cls (acc @ pre) rest k = Some r \<Longrightarrow>
   greedy cls acc (pre @ rest) k = Some r"
  by (induction pre arbitrary: acc) auto

lemma greedy_stop:
  assumes "\<forall>c \<in> set pre. cls c" and "rest = [] \<or> \<not> cls (hd rest)"
    and "k (acc @ pre) rest = Some r"
  shows "greedy cls acc (pre @ rest) k = Some r"
proof -
  have "greedy cls (acc @ pre) rest k = k (acc @ pre) rest"
    using assms(2) by (cases rest) auto
  with assms(1,3) show ?thesis by (simp add: greedy_prefix)
qed

lemma drop_head_in_set: "drop n s = c # cs \<Longrightarrow> c \<in> set s"
  by (metis in_set_dropD list.set_intros(1))

lemma synthetic_match:
  assumes nl: "CHR 0x0A \<notin> set prefix"
    and ne: "body \<noteq> []" and dg: "is_digit (hd body)"
    and ok: "\<forall>c \<in> set body. c \<noteq> CHR 0x0A \<and> c \<noteq> CHR ''['' \<and> c \<noteq> CHR '']''"
  shows "synthetic_hostname_pattern (prefix @ CHR ''['' # body @ ''].yaml'')
           = Some (prefix, CHR ''['' # body @ '']'')"
proof -
  define close_br where "close_br = (\<lambda>ds mid r4.
       case r4 of
         [] \<Rightarrow> None
       | d # r5 \<Rightarrow>
           if d = CHR '']'' then
             greedy dot [] r5 (\<lambda>_ _. Some (prefix, CHR ''['' # ds @ mid @ [CHR '']'']))
           else None)"
  define digit_run where "digit_run = (\<lambda>ds r3.
       if ds = [] then None else greedy dot [] r3 (close_br ds))"
  define open_br where "open_br = (\<lambda>(g1 :: string) r1.
       case r1 of
         [] \<Rightarrow> None
       | c # r2 \<Rightarrow>
           if c = CHR ''['' then
             greedy is_digit [] r2 (\<lambda>ds r3.
               if ds = [] then None
               else greedy dot [] r3 (\<lambda>mid r4.
                 case r4 of
                   [] \<Rightarrow> None
                 | d # r5 \<Rightarrow>
                     if d = CHR '']'' then
                       greedy dot [] r5 (\<lambda>_ _. Some (g1, CHR ''['' # ds @ mid @ [CHR '']'']))
                     else None))
           else None)"
  let ?ds = "takeWhile is_digit body"
  let ?mid = "dropWhile is_digit body"
  have ds_ne: "?ds \<noteq> []" using ne dg by (cases body) auto
  have body: "?ds @ ?mid = body" by simp
  have c1: "close_br ?ds ?mid ''].yaml'' = Some (prefix, CHR ''['' # body @ '']'')"
    unfolding close_br_def by (simp add: greedy_const)
  have c2: "close_br ?ds ([] @ ?mid @ take n ''].yaml'') (drop n ''].yaml'') = None"
    if "0 < n" "n \<le> length ''].yaml''" for n
  proof (cases "drop n ''].yaml''")
    case Nil
    then show ?thesis by (simp add: close_br_def)
  next
    case (Cons d r5)
    have "drop n ''].yaml'' = drop (n - 1) ''.yaml''" using that(1) by (cases n) simp_all
    with Cons have "d \<in> set ''.yaml''" by (metis drop_head_in_set)
    then have "d \<noteq> CHR '']''" by auto
    with Cons show ?thesis by (simp add: close_br_def)
  qed
  have "greedy dot ([] @ ?mid) ''].yaml'' (close_br ?ds) = close_br ?ds ([] @ ?mid) ''].yaml''"
    using c2 by (intro greedy_no_longer) simp
  then have "greedy dot ([] @ ?mid) ''].yaml'' (close_br ?ds) = Some (prefix, CHR ''['' # body @ '']'')"
    using c1 by simp
  moreover have "\<forall>c \<in> set ?mid. dot c"
    using ok by (auto simp: dot_def dest: set_dropWhileD)
  ultimately have mid: "greedy dot [] (?mid @ ''].yaml'') (close_br ?ds)
      = Some (prefix, CHR ''['' # body @ '']'')"
    by (rule greedy_prefix [rotated])
  have d1: "digit_run ([] @ ?ds) (?mid @ ''].yaml'') = Some (prefix, CHR ''['' # body @ '']'')"
    using ds_ne mid by (simp add: digit_run_def)
  have stop: "?mid @ ''].yaml'' = [] \<or> \<not> is_digit (hd (?mid @ ''].yaml''))"
  proof (cases ?mid)
    case Nil
    show ?thesis unfolding Nil by (simp add: is_digit_def)
  next
    case (Cons c cs)
    then have "\<not> is_digit c" by (metis hd_dropWhile list.distinct(1) list.sel(1))
    with Cons show ?thesis by simp
  qed
  have "greedy is_digit [] (?ds @ ?mid @ ''].yaml'') digit_run
      = Some (prefix, CHR ''['' # body @ '']'')"
  proof (rule greedy_stop [where cls = is_digit and pre = ?ds and acc = "[]" and k = digit_run
        and rest = "?mid @ ''].yaml''"])
    show "\<forall>c \<in> set ?ds. is_digit c" by (auto dest: set_takeWhileD)
    show "?mid @ ''].yaml'' = [] \<or> \<not> is_digit (hd (?mid @ ''].yaml''))" by (rule stop)
    show "digit_run ([] @ ?ds) (?mid @ ''].yaml'') = Some (prefix, CHR ''['' # body @ '']'')"
      by (rule d1)
  qed
  then have dig: "greedy is_digit [] (body @ ''].yaml'') digit_run
      = Some (prefix, CHR ''['' # body @ '']'')"
    by (metis append.assoc body)
  have o1: "open_br prefix (CHR ''['' # body @ ''].yaml'') = Some (prefix, CHR ''['' # body @ '']'')"
    using dig unfolding open_br_def digit_run_def close_br_def by simp
  have o2: "open_br ([] @ prefix @ take n (CHR ''['' # body @ ''].yaml''))
              (drop n (CHR ''['' # body @ ''].yaml'')) = None"
    if "0 < n" for n
  proof (cases "drop n (CHR ''['' # body @ ''].yaml'')")
    case Nil
    then show ?thesis by (simp add: open_br_def)
  next
    case (Cons c r2)
    have "drop n (CHR ''['' # body @ ''].yaml'') = drop (n - 1) (body @ ''].yaml'')"
      using that by (cases n) simp_all
    with Cons have "c \<in> set (body @ ''].yaml'')" by (metis drop_head_in_set)
    then have "c \<noteq> CHR ''[''" using ok by auto
    with Cons show ?thesis by (simp add: open_br_def)
  qed
  have "greedy dot ([] @ prefix) (CHR ''['' # body @ ''].yaml'') open_br
      = open_br ([] @ prefix) (CHR ''['' # body @ ''].yaml'')"
    using o2 by (intro greedy_no_longer) simp
  then have "greedy dot ([] @ prefix) (CHR ''['' # body @ ''].yaml'') open_br
      = Some (prefix, CHR ''['' # body @ '']'')"
    using o1 by simp
  moreover have "\<forall>c \<in> set prefix. dot c" using nl by (auto simp: dot_def)
  ultimately have "greedy dot [] (prefix @ CHR ''['' # body @ ''].yaml'') open_br
      = Some (prefix, CHR ''['' # body @ '']'')"
    by (rule greedy_prefix [rotated])
  then show ?thesis
    unfolding synthetic_hostname_pattern_def open_br_def .
qed

text \<open>
  \<^verbatim>\<open>int\<close> on some strings: white space of both kinds around the number, a sign, an
  underscore between digits; and what it rejects, among it the separators 28 to 31.
\<close>

lemma py_int_examples:
  "py_int [CHR 0x09, CHR ''7'', CHR 0x0A] = Inr 7"
  "py_int [CHR 0xA0, CHR ''-'', CHR ''1'', CHR ''2'', CHR 0x85] = Inr (- 12)"
  "py_int ''1_0'' = Inr 10"
  "py_int [CHR ''1'', CHR 0x1F] = Inl ValueError"
  "py_int [CHR 0x1C, CHR ''1''] = Inl ValueError"
  "py_int ''1__0'' = Inl ValueError"
  "py_int ''+ 1'' = Inl ValueError"
  "py_int [] = Inl ValueError"
  by code_simp+

lemma is_digit_cases:
  "is_digit c \<Longrightarrow> c \<noteq> CHR ''-'' \<and> c \<noteq> CHR ''+'' \<and> c \<noteq> CHR ''_'' \<and> c \<noteq> CHR ''[''
     \<and> c \<noteq> CHR '']'' \<and> c \<noteq> CHR 0x0A \<and> \<not> is_space c"
  by (auto simp: is_digit_def is_space_def)

lemma split_on_first:
  "sep \<notin> set as \<Longrightarrow> split_on sep (as @ sep # bs) = as # split_on sep bs"
  by (induction as) auto

lemma dropWhile_id: "xs \<noteq> [] \<Longrightarrow> \<not> P (hd xs) \<Longrightarrow> dropWhile P xs = xs"
  by (cases xs) auto

lemma strip_digits:
  assumes "as \<noteq> []" and "\<forall>c \<in> set as. is_digit c"
  shows "strip as = as"
proof -
  have h: "\<not> is_space (hd as)" using assms by (simp add: is_digit_cases)
  have "hd (rev as) \<in> set as" using assms(1) by (simp add: hd_rev)
  then have l: "\<not> is_space (hd (rev as))" using assms(2) by (simp add: is_digit_cases)
  show ?thesis
    using assms(1) h l by (simp add: strip_def dropWhile_id)
qed

lemma digit_groups_digits:
  "as \<noteq> [] \<Longrightarrow> \<forall>c \<in> set as. is_digit c \<Longrightarrow> digit_groups as"
  by (induction as rule: digit_groups.induct) (auto simp: is_digit_cases)

lemma py_int_digits:
  assumes "as \<noteq> []" and "\<forall>c \<in> set as. is_digit c"
  shows "py_int as = Inr (int (digits_val as))"
proof -
  have s: "strip as = as" using assms by (rule strip_digits)
  have h: "hd as \<noteq> CHR ''-''" "hd as \<noteq> CHR ''+''"
    using assms by (simp_all add: is_digit_cases)
  have f: "filter (\<lambda>c. c \<noteq> CHR ''_'') as = as"
    using assms(2) by (simp add: is_digit_cases)
  show ?thesis
    using h f digit_groups_digits [OF assms] by (simp add: py_int_def s Let_def)
qed

lemma no_brackets:
  "\<forall>c \<in> set as. is_digit c \<Longrightarrow> filter (\<lambda>c. c \<noteq> CHR ''['' \<and> c \<noteq> CHR '']'') as = as"
  by (simp add: is_digit_cases)

lemma expand_host_range:
  assumes "as \<noteq> []" and "\<forall>c \<in> set as. is_digit c"
    and "bs \<noteq> []" and "\<forall>c \<in> set bs. is_digit c"
  shows "expand_host (prefix, CHR ''['' # (as @ CHR ''-'' # bs) @ '']'')
           = Inr (map (\<lambda>n. prefix @ format_02d n) [int (digits_val as)..int (digits_val bs)])"
proof -
  have nd: "CHR ''-'' \<notin> set as" "CHR ''-'' \<notin> set bs"
    using assms(2,4) is_digit_cases by blast+
  have f: "filter (\<lambda>c. c \<noteq> CHR ''['' \<and> c \<noteq> CHR '']'') (CHR ''['' # (as @ CHR ''-'' # bs) @ '']'')
             = as @ CHR ''-'' # bs"
    using no_brackets [OF assms(2)] no_brackets [OF assms(4)] by simp
  have s: "split_on CHR ''-'' (as @ CHR ''-'' # bs) = [as, bs]"
    using nd by (simp add: split_on_first split_on_single)
  show ?thesis
    by (simp only: expand_host_def Let_def snd_conv fst_conv f s)
       (simp add: py_int_digits [OF assms(1,2)] py_int_digits [OF assms(3,4)])
qed

lemma expand_host_single:
  assumes "as \<noteq> []" and "\<forall>c \<in> set as. is_digit c"
  shows "expand_host (prefix, CHR ''['' # as @ '']'')
           = Inr [prefix @ format_02d (int (digits_val as))]"
proof -
  have nd: "CHR ''-'' \<notin> set as"
    using assms(2) is_digit_cases by blast
  have f: "filter (\<lambda>c. c \<noteq> CHR ''['' \<and> c \<noteq> CHR '']'') (CHR ''['' # as @ '']'') = as"
    using no_brackets [OF assms(2)] by simp
  have s: "split_on CHR ''-'' as = [as]"
    using nd by (simp add: split_on_single)
  show ?thesis
    by (simp only: expand_host_def Let_def snd_conv fst_conv f s)
       (simp add: py_int_digits [OF assms(1,2)])
qed

lemma digit_char:
  assumes "d < 10"
  shows "is_digit (char_of (48 + d))" and "digit_val (char_of (48 + d)) = d"
proof -
  have ten: "is_digit (char_of (48 + (0::nat)))" "is_digit (char_of (48 + (1::nat)))"
    "is_digit (char_of (48 + (2::nat)))" "is_digit (char_of (48 + (3::nat)))"
    "is_digit (char_of (48 + (4::nat)))" "is_digit (char_of (48 + (5::nat)))"
    "is_digit (char_of (48 + (6::nat)))" "is_digit (char_of (48 + (7::nat)))"
    "is_digit (char_of (48 + (8::nat)))" "is_digit (char_of (48 + (9::nat)))"
    by code_simp+
  from assms have "d \<in> {0, 1, 2, 3, 4, 5, 6, 7, 8, 9}" by auto
  with ten show "is_digit (char_of (48 + d))"
    by (elim insertE emptyE) (simp_all only:)
  from assms show "digit_val (char_of (48 + d)) = d"
    by (simp add: digit_val_def)
qed

lemma digits_val_snoc: "digits_val (xs @ [c]) = 10 * digits_val xs + digit_val c"
  by (simp add: digits_val_def)

lemma str_of_nat_props:
  "(\<forall>c \<in> set (str_of_nat n). is_digit c) \<and> digits_val (str_of_nat n) = n
     \<and> str_of_nat n \<noteq> []"
proof (induction n rule: str_of_nat.induct)
  case (1 n)
  show ?case
  proof (cases "n < 10")
    case True
    then show ?thesis
      by (simp add: str_of_nat.simps [of n] digit_char digits_val_def)
  next
    case False
    have m: "n mod 10 < 10" by simp
    from False "1.IH" show ?thesis
      by (simp add: str_of_nat.simps [of n] digit_char [OF m] digits_val_snoc)
  qed
qed

lemma format_02d_props:
  assumes "0 \<le> n"
  shows "2 \<le> length (format_02d n)" and "\<forall>c \<in> set (format_02d n). is_digit c"
    and "int (digits_val (format_02d n)) = n"
    and "10 \<le> n \<longrightarrow> format_02d n = str_of_nat (nat n)"
proof -
  have zero: "is_digit CHR ''0''" by (simp add: is_digit_def)
  have z: "digits_val (CHR ''0'' # d) = digits_val d" for d
  proof -
    have "foldl (\<lambda>acc c. 10 * acc + digit_val c) (digit_val CHR ''0'') d
            = foldl (\<lambda>acc c. 10 * acc + digit_val c) 0 d"
      by (simp add: digit_val_def)
    then show ?thesis by (simp add: digits_val_def)
  qed
  have "1 \<le> length (str_of_nat (nat n))"
    using str_of_nat_props [of "nat n"] by (cases "str_of_nat (nat n)") auto
  with assms show "2 \<le> length (format_02d n)"
    by (simp add: format_02d_def Let_def)
  from str_of_nat_props [of "nat n"] assms zero
  show "\<forall>c \<in> set (format_02d n). is_digit c"
    by (auto simp: format_02d_def Let_def)
  from str_of_nat_props [of "nat n"] assms
  show "int (digits_val (format_02d n)) = n"
    by (auto simp: format_02d_def Let_def z)
  show "10 \<le> n \<longrightarrow> format_02d n = str_of_nat (nat n)"
  proof
    assume ten: "10 \<le> n"
    then have "\<not> nat n < 10" by simp
    then have "str_of_nat (nat n) = str_of_nat (nat n div 10) @ [char_of (48 + nat n mod 10)]"
      by (subst str_of_nat.simps) simp
    moreover have "str_of_nat (nat n div 10) \<noteq> []" using str_of_nat_props by blast
    ultimately have "\<not> length (str_of_nat (nat n)) < 2"
      by (cases "str_of_nat (nat n div 10)") auto
    with ten show "format_02d n = str_of_nat (nat n)"
      by (simp add: format_02d_def Let_def)
  qed
qed

text \<open>Joining paths: the current directory and the root.\<close>

lemma path_join_examples:
  "path_join ''.'' ''definitions'' = ''definitions''"
  "path_join ''/'' ''definitions'' = ''/definitions''"
  "path_join ''site'' ''definitions'' = ''site/definitions''"
  "map_sum id site_definitions_directory
     (init (finite_env [] [] []) ''.'' ''example.com'' (PStr []) (PStr [])) = Inr ''definitions''"
  by code_simp+

lemma stream_concat_member:
  "r \<in> set (fst (stream_concat ss)) \<Longrightarrow> \<exists>s \<in> set ss. r \<in> set (fst s)"
  by (induction ss) (auto simp: stream_concat_def stream_append_def split: option.splits)

lemma stream_concat_filter:
  assumes "\<forall>t \<in> set ss1. snd t = None \<and> (\<forall>r \<in> set (fst t). \<not> P r)"
    and "\<forall>t \<in> set ss2. \<forall>r \<in> set (fst t). \<not> P r"
  shows "filter P (fst (stream_concat (ss1 @ s # ss2))) = filter P (fst s)"
  using assms(1)
proof (induction ss1)
  case Nil
  have "filter P (fst (stream_concat ss2)) = []"
    using assms(2) stream_concat_member [of _ ss2] by (auto simp: filter_empty_conv)
  then show ?case
    by (simp add: stream_concat_def stream_append_def split: option.splits)
next
  case (Cons t ss1)
  then have "snd t = None" and "filter P (fst t) = []"
    by (auto simp: filter_empty_conv)
  with Cons show ?case
    by (simp add: stream_concat_def stream_append_def)
qed

lemma stream_concat_none:
  "\<forall>t \<in> set ss. snd t = None \<Longrightarrow> snd (stream_concat ss) = None"
  by (induction ss) (auto simp: stream_concat_def stream_append_def)

lemma site_file_path:
  "r \<in> set (fst (site_file gen dir name)) \<Longrightarrow> r ! 0 = path_join dir name"
  using site_file_shape [of r gen dir name] by auto

lemma char_of_digit:
  "char_of (48 :: nat) = CHR ''0''" "char_of (49 :: nat) = CHR ''1''"
  "char_of (50 :: nat) = CHR ''2''" "char_of (51 :: nat) = CHR ''3''"
  "char_of (52 :: nat) = CHR ''4''" "char_of (53 :: nat) = CHR ''5''"
  "char_of (54 :: nat) = CHR ''6''" "char_of (55 :: nat) = CHR ''7''"
  "char_of (56 :: nat) = CHR ''8''" "char_of (57 :: nat) = CHR ''9''"
  by code_simp+

lemma str_of_nat_small: "n < 10 \<Longrightarrow> str_of_nat n = [''0123456789'' ! n]"
proof -
  assume "n < 10"
  then have "n \<in> {0, 1, 2, 3, 4, 5, 6, 7, 8, 9}" by auto
  then show ?thesis
    by (elim insertE emptyE) (simp_all add: str_of_nat.simps char_of_digit)
qed

lemma str_of_nat_head: "0 < n \<Longrightarrow> hd (str_of_nat n) \<noteq> CHR ''0''"
proof (induction n rule: str_of_nat.induct)
  case (1 n)
  show ?case
  proof (cases "n < 10")
    case True
    with "1.prems" have "n \<in> {1, 2, 3, 4, 5, 6, 7, 8, 9}" by auto
    then show ?thesis
      by (elim insertE emptyE) (simp_all add: str_of_nat.simps char_of_digit)
  next
    case False
    then have "0 < n div 10" by simp
    with False "1.IH" have "hd (str_of_nat (n div 10)) \<noteq> CHR ''0''" by simp
    moreover have "str_of_nat (n div 10) \<noteq> []" using str_of_nat_props by blast
    ultimately show ?thesis
      using False by (subst str_of_nat.simps) simp
  qed
qed

lemma format_02d_small: "0 \<le> n \<Longrightarrow> n < 10 \<Longrightarrow> format_02d n = [CHR ''0'', ''0123456789'' ! nat n]"
  by (simp add: format_02d_def Let_def str_of_nat_small)

lemma site_file_range:
  assumes "CHR 0x0A \<notin> set prefix"
    and "as \<noteq> []" and "\<forall>c \<in> set as. is_digit c"
    and "bs \<noteq> []" and "\<forall>c \<in> set bs. is_digit c"
  shows "site_file gen dir (prefix @ ''['' @ as @ ''-'' @ bs @ ''].yaml'')
      = (map (\<lambda>n. [path_join dir (prefix @ ''['' @ as @ ''-'' @ bs @ ''].yaml''),
                    prefix @ format_02d n @ ''.'' @ environment_domain gen,
                    prefix @ format_02d n])
           [int (digits_val as)..int (digits_val bs)], None)"
proof -
  let ?range = "as @ CHR ''-'' # bs"
  have r1: "?range \<noteq> []" by simp
  have r2: "is_digit (hd ?range)" using assms(2,3) by (cases as) auto
  have r3: "\<forall>c \<in> set ?range. c \<noteq> CHR 0x0A \<and> c \<noteq> CHR ''['' \<and> c \<noteq> CHR '']''"
    using assms(3,5) is_digit_cases by auto
  have m: "synthetic_hostname_pattern (prefix @ ''['' @ as @ ''-'' @ bs @ ''].yaml'')
             = Some (prefix, CHR ''['' # ?range @ '']'')"
    using synthetic_match [OF assms(1) r1 r2 r3] by simp
  show ?thesis
    by (simp add: site_file_def Let_def m expand_host_range [OF assms(2,3,4,5)] comp_def
        del: append.simps append_assoc)
qed

lemma site_file_single:
  assumes "CHR 0x0A \<notin> set prefix"
    and "as \<noteq> []" and "\<forall>c \<in> set as. is_digit c"
  shows "site_file gen dir (prefix @ ''['' @ as @ ''].yaml'')
      = ([[path_join dir (prefix @ ''['' @ as @ ''].yaml''),
           prefix @ format_02d (int (digits_val as)) @ ''.'' @ environment_domain gen,
           prefix @ format_02d (int (digits_val as))]], None)"
proof -
  have s1: "is_digit (hd as)" using assms(2,3) by (cases as) auto
  have s2: "\<forall>c \<in> set as. c \<noteq> CHR 0x0A \<and> c \<noteq> CHR ''['' \<and> c \<noteq> CHR '']''"
    using assms(3) is_digit_cases by auto
  have m1: "synthetic_hostname_pattern (prefix @ ''['' @ as @ ''].yaml'')
             = Some (prefix, CHR ''['' # as @ '']'')"
    using synthetic_match [OF assms(1,2) s1 s2] by simp
  show ?thesis
    by (simp add: site_file_def Let_def m1 expand_host_single [OF assms(2,3)]
        del: append.simps append_assoc)
qed

text \<open>
  What the walk yields for one file: the identities that carry the path of the file are
  those of its own turn of the inner loop, when the walk reaches the file and no other
  listed file has its path.
\<close>

lemma traverse_site_file:
  assumes dirs: "glob env directory ''*'' = dirs1 @ d # dirs2"
    and files: "glob env (path_join directory d) ''*.yaml'' = names1 @ name # names2"
    and reach_dirs: "\<forall>d' \<in> set dirs1. \<forall>n \<in> set (glob env (path_join directory d') ''*.yaml'').
           snd (site_file gen (path_join directory d') n) = None"
    and reach_files: "\<forall>n \<in> set names1. snd (site_file gen (path_join directory d) n) = None"
    and once_dirs: "\<forall>d' \<in> set dirs1 \<union> set dirs2.
           \<forall>n \<in> set (glob env (path_join directory d') ''*.yaml'').
             path_join (path_join directory d') n \<noteq> path_join (path_join directory d) name"
    and once_files: "\<forall>n \<in> set names1 \<union> set names2.
           path_join (path_join directory d) n \<noteq> path_join (path_join directory d) name"
    and own: "\<forall>r \<in> set (fst (site_file gen (path_join directory d) name)).
           r ! 0 = path_join (path_join directory d) name"
  shows "filter (\<lambda>r. r ! 0 = path_join (path_join directory d) name)
           (fst (traverse_site env gen directory))
         = fst (site_file gen (path_join directory d) name)"
proof -
  let ?path = "path_join (path_join directory d) name"
  let ?P = "\<lambda>r. r ! 0 = ?path"
  let ?inner = "\<lambda>d. stream_concat
                      (map (site_file gen (path_join directory d))
                         (glob env (path_join directory d) ''*.yaml''))"
  have other: "\<not> ?P r"
    if "r \<in> set (fst (site_file gen dir n))" "path_join dir n \<noteq> ?path" for r dir n
    using that site_file_path [of r gen dir n] by simp
  have inner_other: "\<not> ?P r"
    if d': "d' \<in> set dirs1 \<union> set dirs2" and r: "r \<in> set (fst (?inner d'))" for r d'
  proof -
    from stream_concat_member [OF r] obtain n
      where n: "n \<in> set (glob env (path_join directory d') ''*.yaml'')"
        and rn: "r \<in> set (fst (site_file gen (path_join directory d') n))"
      by auto
    from once_dirs d' n have "path_join (path_join directory d') n \<noteq> ?path" by blast
    with rn show ?thesis by (rule other)
  qed
  have inner_none: "snd (?inner d') = None" if "d' \<in> set dirs1" for d'
    using reach_dirs that by (intro stream_concat_none) auto
  have "filter ?P (fst (?inner d))
          = filter ?P (fst (site_file gen (path_join directory d) name))"
    unfolding files map_append list.map
  proof (rule stream_concat_filter)
    show "\<forall>t \<in> set (map (site_file gen (path_join directory d)) names1).
            snd t = None \<and> (\<forall>r \<in> set (fst t). \<not> ?P r)"
      using reach_files once_files other by auto
    show "\<forall>t \<in> set (map (site_file gen (path_join directory d)) names2).
            \<forall>r \<in> set (fst t). \<not> ?P r"
      using once_files other by auto
  qed
  also have "\<dots> = fst (site_file gen (path_join directory d) name)"
    using own by (simp add: filter_id_conv)
  finally have mid: "filter ?P (fst (?inner d))
          = fst (site_file gen (path_join directory d) name)" .
  have "filter ?P (fst (traverse_site env gen directory)) = filter ?P (fst (?inner d))"
    unfolding traverse_site_def Let_def dirs map_append list.map
  proof (rule stream_concat_filter)
    show "\<forall>t \<in> set (map ?inner dirs1). snd t = None \<and> (\<forall>r \<in> set (fst t). \<not> ?P r)"
      using inner_none inner_other by auto
    show "\<forall>t \<in> set (map ?inner dirs2). \<forall>r \<in> set (fst t). \<not> ?P r"
      using inner_other by auto
  qed
  with mid show ?thesis by simp
qed

text \<open>
  A line feed before the bracket: \<^verbatim>\<open>.\<close> does not match it, so the pattern does not
  match at the start of the name, and the file is taken for a plain name.
\<close>

lemma line_feed_not_synthetic:
  "synthetic_hostname_pattern [CHR ''a'', CHR 0x0A, CHR ''b'', CHR ''['', CHR ''1'', CHR ''-'',
      CHR ''2'', CHR '']'', CHR ''.'', CHR ''y'', CHR ''a'', CHR ''m'', CHR ''l''] = None"
  "synthetic_hostname_pattern ''ab[1-2].yaml'' = Some (''ab'', ''[1-2]'')"
  "fst (site_file
      \<lparr> site_directory = ''site'', site_definitions_directory = ''site/definitions'',
        environment_domain = ''example.com'', os_class_map = PDict [], sub_group_map = PDict [] \<rparr>
      ''site/definitions/web''
      [CHR ''a'', CHR 0x0A, CHR ''b'', CHR ''['', CHR ''1'', CHR ''-'',
       CHR ''2'', CHR '']'', CHR ''.'', CHR ''y'', CHR ''a'', CHR ''m'', CHR ''l''])
   = [[''site/definitions/web/'' @ [CHR ''a'', CHR 0x0A] @ ''b[1-2].yaml'',
       [CHR ''a'', CHR 0x0A] @ ''b[1-2].example.com'',
       [CHR ''a'', CHR 0x0A] @ ''b[1-2]'']]"
  by code_simp+

text \<open>
  The walk has to reach a file. The range of \<^verbatim>\<open>bad[1-].yaml\<close> has no second number,
  \<^verbatim>\<open>int('')\<close> raises \<^verbatim>\<open>ValueError\<close>, nothing catches it, and the file listed after it
  is never looked at.
\<close>

lemma walk_ends_at_error:
  "traverse_site
     (finite_env [] []
        [((''site/definitions'', ''*''), [''web'']),
         ((''site/definitions/web'', ''*.yaml''), [''bad[1-].yaml'', ''host[01-04].yaml''])])
     \<lparr> site_directory = ''site'', site_definitions_directory = ''site/definitions'',
       environment_domain = ''example.com'', os_class_map = PDict [],
       sub_group_map = PDict [] \<rparr>
     ''site/definitions''
   = ([], Some ValueError)"
  by code_simp

text \<open>
  Claim C6. Let the walk reach the definition file \<^verbatim>\<open>prefix[A-B].yaml\<close>, where \<^verbatim>\<open>A\<close>
  and \<^verbatim>\<open>B\<close> are strings of decimal digits with \<^verbatim>\<open>A \<le> B\<close> as numbers: the file is
  listed in a group directory, and no file listed before it, in that directory or in one
  before, ends the walk with an exception (a range that \<^verbatim>\<open>int\<close> rejects does, and
  nothing catches it). Then the identities that the walker yields for the file, those with
  its path, are one for each number from \<^verbatim>\<open>A\<close> to \<^verbatim>\<open>B\<close>, in order, \<^verbatim>\<open>B - A + 1\<close> of
  them: the short name is the prefix followed by the number printed by \<^verbatim>\<open>"%02d"\<close>, and
  the fully qualified name is the short name, a dot and the environment domain. For
  \<^verbatim>\<open>prefix[N].yaml\<close> the walker yields exactly one identity, for the number \<^verbatim>\<open>N\<close>.
  What \<^verbatim>\<open>"%02d"\<close> prints for a number that is not negative is, below 10, a zero and the
  digit, and from 10 on the decimal numeral in full, without a leading zero: at least two
  characters, all decimal digits, which read back as the number. The prefix has no line
  feed (\<^verbatim>\<open>.\<close> does not match one, and a name with a line feed before the bracket is not
  taken for a synthetic name), and no other listed file has the path of this one.
\<close>

theorem synthetic_range_expansion:
  assumes "CHR 0x0A \<notin> set prefix"
    and "as \<noteq> []" and "\<forall>c \<in> set as. is_digit c"
    and "bs \<noteq> []" and "\<forall>c \<in> set bs. is_digit c"
    and "digits_val as \<le> digits_val bs"
    and "name = prefix @ ''['' @ as @ ''-'' @ bs @ ''].yaml''
           \<and> numbers = [int (digits_val as)..int (digits_val bs)]
         \<or> name = prefix @ ''['' @ as @ ''].yaml'' \<and> numbers = [int (digits_val as)]"
    and "glob env directory ''*'' = dirs1 @ d # dirs2"
    and "glob env (path_join directory d) ''*.yaml'' = names1 @ name # names2"
    and "\<forall>d' \<in> set dirs1. \<forall>n \<in> set (glob env (path_join directory d') ''*.yaml'').
           snd (site_file gen (path_join directory d') n) = None"
    and "\<forall>n \<in> set names1. snd (site_file gen (path_join directory d) n) = None"
    and "\<forall>d' \<in> set dirs1 \<union> set dirs2.
           \<forall>n \<in> set (glob env (path_join directory d') ''*.yaml'').
             path_join (path_join directory d') n \<noteq> path_join (path_join directory d) name"
    and "\<forall>n \<in> set names1 \<union> set names2.
           path_join (path_join directory d) n \<noteq> path_join (path_join directory d) name"
  shows "filter (\<lambda>r. r ! 0 = path_join (path_join directory d) name)
           (fst (traverse_site env gen directory))
         = map (\<lambda>n. [path_join (path_join directory d) name,
                       prefix @ format_02d n @ ''.'' @ environment_domain gen,
                       prefix @ format_02d n]) numbers
    \<and> (name = prefix @ ''['' @ as @ ''-'' @ bs @ ''].yaml'' \<longrightarrow>
         length (filter (\<lambda>r. r ! 0 = path_join (path_join directory d) name)
                   (fst (traverse_site env gen directory)))
           = digits_val bs - digits_val as + 1)
    \<and> (name = prefix @ ''['' @ as @ ''].yaml'' \<longrightarrow>
         length (filter (\<lambda>r. r ! 0 = path_join (path_join directory d) name)
                   (fst (traverse_site env gen directory))) = 1)
    \<and> (\<forall>n \<ge> 0.
          (n < 10 \<longrightarrow> format_02d n = [CHR ''0'', ''0123456789'' ! nat n])
          \<and> (10 \<le> n \<longrightarrow> format_02d n = str_of_nat (nat n) \<and> hd (format_02d n) \<noteq> CHR ''0'')
          \<and> 2 \<le> length (format_02d n) \<and> (\<forall>c \<in> set (format_02d n). is_digit c)
          \<and> int (digits_val (format_02d n)) = n)"
proof -
  let ?dir = "path_join directory d"
  have yielded: "site_file gen ?dir name
      = (map (\<lambda>n. [path_join ?dir name,
                    prefix @ format_02d n @ ''.'' @ environment_domain gen,
                    prefix @ format_02d n]) numbers, None)"
    using assms(7) site_file_range [OF assms(1,2,3,4,5), of gen ?dir]
      site_file_single [OF assms(1,2,3), of gen ?dir]
    by auto
  have own: "\<forall>r \<in> set (fst (site_file gen ?dir name)). r ! 0 = path_join ?dir name"
    unfolding yielded by simp
  have walk: "filter (\<lambda>r. r ! 0 = path_join ?dir name) (fst (traverse_site env gen directory))
         = map (\<lambda>n. [path_join ?dir name,
                       prefix @ format_02d n @ ''.'' @ environment_domain gen,
                       prefix @ format_02d n]) numbers"
    using traverse_site_file [OF assms(8,9,10,11,12,13) own] unfolding yielded by simp
  have count: "length (filter (\<lambda>r. r ! 0 = path_join ?dir name)
                   (fst (traverse_site env gen directory)))
           = digits_val bs - digits_val as + 1"
    if "name = prefix @ ''['' @ as @ ''-'' @ bs @ ''].yaml''"
    unfolding walk using assms(6,7) that by auto
  have one: "length (filter (\<lambda>r. r ! 0 = path_join ?dir name)
                   (fst (traverse_site env gen directory))) = 1"
    if "name = prefix @ ''['' @ as @ ''].yaml''"
    unfolding walk using assms(7) that by auto
  have fmt: "(n < 10 \<longrightarrow> format_02d n = [CHR ''0'', ''0123456789'' ! nat n])
          \<and> (10 \<le> n \<longrightarrow> format_02d n = str_of_nat (nat n) \<and> hd (format_02d n) \<noteq> CHR ''0'')
          \<and> 2 \<le> length (format_02d n) \<and> (\<forall>c \<in> set (format_02d n). is_digit c)
          \<and> int (digits_val (format_02d n)) = n" if "0 \<le> n" for n
  proof -
    have "hd (format_02d n) \<noteq> CHR ''0''" if "10 \<le> n"
      using format_02d_props(4) [OF \<open>0 \<le> n\<close>] that str_of_nat_head [of "nat n"] by simp
    then show ?thesis
      using format_02d_small [OF that] format_02d_props [OF that] by blast
  qed
  from walk count one fmt show ?thesis by blast
qed

theorem synthetic_range_expansion_witness:
  "filter (\<lambda>r. r ! 0 = ''site/definitions/web/host[01-04].yaml'')
     (fst (traverse_site
        (finite_env [] []
           [((''site/definitions'', ''*''), [''db'', ''web'']),
            ((''site/definitions/db'', ''*.yaml''), [''db-01.yaml'']),
            ((''site/definitions/web'', ''*.yaml''),
             [''alpha.yaml'', ''host[01-04].yaml'', ''node[7].yaml''])])
        \<lparr> site_directory = ''site'', site_definitions_directory = ''site/definitions'',
          environment_domain = ''example.com'', os_class_map = PDict [],
          sub_group_map = PDict [] \<rparr>
        ''site/definitions''))
   = [[''site/definitions/web/host[01-04].yaml'', ''host01.example.com'', ''host01''],
      [''site/definitions/web/host[01-04].yaml'', ''host02.example.com'', ''host02''],
      [''site/definitions/web/host[01-04].yaml'', ''host03.example.com'', ''host03''],
      [''site/definitions/web/host[01-04].yaml'', ''host04.example.com'', ''host04'']]
   \<and> filter (\<lambda>r. r ! 0 = ''site/definitions/web/node[7].yaml'')
     (fst (traverse_site
        (finite_env [] []
           [((''site/definitions'', ''*''), [''db'', ''web'']),
            ((''site/definitions/db'', ''*.yaml''), [''db-01.yaml'']),
            ((''site/definitions/web'', ''*.yaml''),
             [''alpha.yaml'', ''host[01-04].yaml'', ''node[7].yaml''])])
        \<lparr> site_directory = ''site'', site_definitions_directory = ''site/definitions'',
          environment_domain = ''example.com'', os_class_map = PDict [],
          sub_group_map = PDict [] \<rparr>
        ''site/definitions''))
   = [[''site/definitions/web/node[7].yaml'', ''node07.example.com'', ''node07'']]"
proof -
  let ?env = "finite_env [] []
           [((''site/definitions'', ''*''), [''db'', ''web'']),
            ((''site/definitions/db'', ''*.yaml''), [''db-01.yaml'']),
            ((''site/definitions/web'', ''*.yaml''),
             [''alpha.yaml'', ''host[01-04].yaml'', ''node[7].yaml''])]"
  let ?gen = "\<lparr> site_directory = ''site'', site_definitions_directory = ''site/definitions'',
          environment_domain = ''example.com'', os_class_map = PDict [],
          sub_group_map = PDict [] \<rparr>"
  have p: "path_join ''site/definitions'' ''web'' = ''site/definitions/web''"
    "path_join ''site/definitions/web'' ''host[01-04].yaml''
       = ''site/definitions/web/host[01-04].yaml''"
    "path_join ''site/definitions/web'' ''node[7].yaml'' = ''site/definitions/web/node[7].yaml''"
    by (simp_all add: path_join_def)
  have h1: "CHR 0x0A \<notin> set ''host''" "CHR 0x0A \<notin> set ''node''" by simp_all
  have h2: "''01'' \<noteq> []" "''04'' \<noteq> []" "''7'' \<noteq> []" by simp_all
  have h3: "\<forall>c \<in> set ''01''. is_digit c" "\<forall>c \<in> set ''04''. is_digit c"
    "\<forall>c \<in> set ''7''. is_digit c"
    by (simp_all add: is_digit_def)
  have v: "digits_val ''01'' = 1" "digits_val ''04'' = 4" "digits_val ''7'' = 7"
    by (simp_all add: digits_val_def digit_val_def)
  have h6: "digits_val ''01'' \<le> digits_val ''04''" "digits_val ''7'' \<le> digits_val ''7''"
    by (simp_all add: v)
  have range: "''host[01-04].yaml'' = ''host'' @ ''['' @ ''01'' @ ''-'' @ ''04'' @ ''].yaml''
           \<and> [1, 2, 3, 4 :: int] = [int (digits_val ''01'')..int (digits_val ''04'')]
         \<or> ''host[01-04].yaml'' = ''host'' @ ''['' @ ''01'' @ ''].yaml''
           \<and> [1, 2, 3, 4 :: int] = [int (digits_val ''01'')]"
  proof -
    have "[1..4] = [1, 2, 3, 4 :: int]" by code_simp
    then show ?thesis by (simp add: v)
  qed
  have single: "''node[7].yaml'' = ''node'' @ ''['' @ ''7'' @ ''-'' @ ''7'' @ ''].yaml''
           \<and> [7 :: int] = [int (digits_val ''7'')..int (digits_val ''7'')]
         \<or> ''node[7].yaml'' = ''node'' @ ''['' @ ''7'' @ ''].yaml''
           \<and> [7 :: int] = [int (digits_val ''7'')]"
    by (simp add: v)
  have dirs: "glob ?env ''site/definitions'' ''*'' = [''db''] @ ''web'' # []"
    by (simp add: finite_env_def)
  have files1: "glob ?env (path_join ''site/definitions'' ''web'') ''*.yaml''
      = [''alpha.yaml''] @ ''host[01-04].yaml'' # [''node[7].yaml'']"
    by (simp add: finite_env_def p)
  have files2: "glob ?env (path_join ''site/definitions'' ''web'') ''*.yaml''
      = [''alpha.yaml'', ''host[01-04].yaml''] @ ''node[7].yaml'' # []"
    by (simp add: finite_env_def p)
  have reach_dirs: "\<forall>d' \<in> set [''db''].
      \<forall>n \<in> set (glob ?env (path_join ''site/definitions'' d') ''*.yaml'').
        snd (site_file ?gen (path_join ''site/definitions'' d') n) = None"
    by code_simp
  have reach1: "\<forall>n \<in> set [''alpha.yaml''].
      snd (site_file ?gen (path_join ''site/definitions'' ''web'') n) = None"
    by code_simp
  have reach2: "\<forall>n \<in> set [''alpha.yaml'', ''host[01-04].yaml''].
      snd (site_file ?gen (path_join ''site/definitions'' ''web'') n) = None"
    by code_simp
  have once_dirs1: "\<forall>d' \<in> set [''db''] \<union> set [].
      \<forall>n \<in> set (glob ?env (path_join ''site/definitions'' d') ''*.yaml'').
        path_join (path_join ''site/definitions'' d') n
          \<noteq> path_join (path_join ''site/definitions'' ''web'') ''host[01-04].yaml''"
    by code_simp
  have once_dirs2: "\<forall>d' \<in> set [''db''] \<union> set [].
      \<forall>n \<in> set (glob ?env (path_join ''site/definitions'' d') ''*.yaml'').
        path_join (path_join ''site/definitions'' d') n
          \<noteq> path_join (path_join ''site/definitions'' ''web'') ''node[7].yaml''"
    by code_simp
  have once1: "\<forall>n \<in> set [''alpha.yaml''] \<union> set [''node[7].yaml''].
      path_join (path_join ''site/definitions'' ''web'') n
        \<noteq> path_join (path_join ''site/definitions'' ''web'') ''host[01-04].yaml''"
    by code_simp
  have once2: "\<forall>n \<in> set [''alpha.yaml'', ''host[01-04].yaml''] \<union> set [].
      path_join (path_join ''site/definitions'' ''web'') n
        \<noteq> path_join (path_join ''site/definitions'' ''web'') ''node[7].yaml''"
    by code_simp
  have f: "format_02d 1 = ''01''" "format_02d 2 = ''02''" "format_02d 3 = ''03''"
    "format_02d 4 = ''04''" "format_02d 7 = ''07''"
    by code_simp+
  from synthetic_range_expansion [OF h1(1) h2(1) h3(1) h2(2) h3(2) h6(1) range dirs files1
      reach_dirs reach1 once_dirs1 once1]
    synthetic_range_expansion [OF h1(2) h2(3) h3(3) h2(3) h3(3) h6(2) single dirs files2
      reach_dirs reach2 once_dirs2 once2]
  show ?thesis by (simp add: p f)
qed

end
